theory Spec2Isabelle
  imports Complex_Main "HOL-Library.Stream"
begin

section \<open>Data model of windmill\_enhanced.cpp\<close>

text \<open>
  A C++ \<open>float\<close> is modelled by the real number it denotes. Cloud positions and the
  results of \<open>randomFloat\<close> are sums and quotients of arbitrary floats, so there the
  arithmetic rounds to binary32 as the hardware does: \<open>f32\<close> below, applied to the
  exact result of every single operation, and to the literals that are no binary32
  values (\<open>0.3f\<close> is \<open>f32 0.3\<close>). The rotation speed of a windmill only takes the
  values 0.5, 1.0, ..., 15.0 and its blade angle is a sum of such values, so windmill
  arithmetic is exact; the celestial angle and the arguments of the OpenGL calls are
  kept as exact reals. The C++ type \<open>int\<close> is
  modelled by \<open>int\<close>: signed overflow, which is undefined in C++, would need more than
  \<open>2 ^ 31\<close> live windmills and is left out.
\<close>

subsection \<open>Rounding to binary32\<close>

text \<open>Rounding a real to the nearest integer, a tie to the even one.\<close>

definition round_even :: "real \<Rightarrow> int" where
  "round_even y =
     (let f = \<lfloor>y\<rfloor> in
      if y - of_int f < 1/2 then f
      else if 1/2 < y - of_int f then f + 1
      else if even f then f else f + 1)"

text \<open>
  Rounding a real to the nearest binary32 value, a tie to the even significand: 24
  significant bits at the exponent of \<open>x\<close>, and steps of \<open>2 ^ -149\<close> below
  \<open>2 ^ -126\<close> (gradual underflow). The exponent has no upper limit here: a result of
  size \<open>2 ^ 128\<close> or more, where binary32 yields an infinity, is outside the model.
\<close>

definition f32 :: "real \<Rightarrow> real" where
  "f32 x =
     (if x = 0 then 0
      else let u = 2 powr of_int (max \<lfloor>log 2 \<bar>x\<bar>\<rfloor> (- 126) - 23)
           in of_int (round_even (x / u)) * u)"

text \<open>The step between neighbouring binary32 values at \<open>x\<close>.\<close>

definition ulp32 :: "real \<Rightarrow> real" where
  "ulp32 x = 2 powr of_int (max \<lfloor>log 2 \<bar>x\<bar>\<rfloor> (- 126) - 23)"

subsection \<open>The draw surface and the console\<close>

datatype gl_mode = GL_POLYGON | GL_LINES | GL_LINE_LOOP

datatype glut_font =
  GLUT_BITMAP_HELVETICA_18 | GLUT_BITMAP_HELVETICA_12 | GLUT_BITMAP_8_BY_13

text \<open>One constructor per OpenGL / GLUT call the program issues.\<close>

datatype gl_cmd =
    GlBegin gl_mode
  | GlEnd
  | GlVertex2f real real
  | GlColor3f real real real
  | GlClearColor real real real real
  | GlClear
  | GlPushMatrix
  | GlPopMatrix
  | GlTranslatef real real real
  | GlRotatef real real real real
  | GlLineWidth real
  | GlRasterPos2f real real
  | GlutBitmapCharacter glut_font char
  | GlutSwapBuffers

text \<open>What \<open>cout << ...\<close> receives: string literals, ints, floats and \<open>endl\<close>.\<close>

datatype out_item = Str string | IntV int | FloatV real | Endl

subsection \<open>Colors and entities\<close>

text \<open>\<open>struct Color { float r, g, b; }\<close>, fields named after the constructor's parameters.\<close>

record Color =
  red :: real
  green :: real
  blue :: real

text \<open>
  \<open>class Drawable\<close>: the fields \<open>x\<close>, \<open>y\<close> are called \<open>posX\<close>, \<open>posY\<close> here, after
  the constructor's parameters.
\<close>

record Drawable =
  posX :: real
  posY :: real
  visible :: bool

text \<open>\<open>class Cloud : public Drawable\<close>; the field \<open>size\<close> is called \<open>cloudSize\<close>.\<close>

record Cloud = Drawable +
  speed :: real
  cloudSize :: real

record CelestialBody = Drawable +
  radius :: real
  angle :: real
  color :: Color

text \<open>\<open>class Windmill : public Drawable\<close>; the field \<open>id\<close> is called \<open>ident\<close>.\<close>

record Windmill = Drawable +
  bladeAngle :: real
  rotationSpeed :: real
  isRotating :: bool
  towerWidth :: real
  towerHeight :: real
  bladeLength :: real
  numBlades :: int
  ident :: int

text \<open>An object behind a \<open>Drawable*\<close>: the dynamic type selects the virtual functions.\<close>

datatype object = ACloud Cloud | ACelestialBody CelestialBody | AWindmill Windmill

subsection \<open>Process-wide state\<close>

text \<open>
  The global variables \<open>isDay\<close>, \<open>isPaused\<close>, \<open>animateCelestial\<close>, the static members
  \<open>Windmill::windmillCount\<close> and \<open>Windmill::selectedWindmill\<close>, and the environment the
  program talks to: the C library's random generator (\<open>RAND_MAX\<close> and the values that
  the coming calls of \<open>rand()\<close> return, in order), the console and the draw surface
  (the commands issued so far) and the run loop's pending-redraw flag, which
  \<open>glutPostRedisplay()\<close> sets.
\<close>

record process =
  isDay :: bool
  isPaused :: bool
  animateCelestial :: bool
  windmillCount :: int
  selectedWindmill :: int
  RAND_MAX :: int
  rand_seq :: "int stream"
  cout :: "out_item list"
  gl :: "gl_cmd list"
  redisplay :: bool

section \<open>Helpers\<close>

text \<open>
  \<open>randomFloat(min, max)\<close>:
  \<open>min + float(rand()) / float(RAND_MAX / (max - min))\<close>; one value of \<open>rand()\<close> is consumed.
  The two conversions from \<open>int\<close>, the subtraction, the two divisions and the addition
  each round to binary32.
\<close>

definition randomFloat ::
  "real \<Rightarrow> real \<Rightarrow> 'a process_scheme \<Rightarrow> real \<times> 'a process_scheme" where
  "randomFloat mn mx p =
     (f32 (mn + f32 (f32 (real_of_int (shd (rand_seq p)))
                     / f32 (f32 (real_of_int (RAND_MAX p)) / f32 (mx - mn)))),
      p\<lparr>rand_seq := stl (rand_seq p)\<rparr>)"

section \<open>Cloud\<close>

definition new_Cloud :: "real \<Rightarrow> real \<Rightarrow> real \<Rightarrow> real \<Rightarrow> Cloud" where
  "new_Cloud px py spd sz =
     \<lparr>posX = px, posY = py, visible = True, speed = spd, cloudSize = sz\<rparr>"

text \<open>\<open>Cloud::update()\<close>; \<open>x += speed\<close> is a binary32 addition.\<close>

definition Cloud_update :: "Cloud \<Rightarrow> 'a process_scheme \<Rightarrow> Cloud \<times> 'a process_scheme" where
  "Cloud_update c p =
     (if isPaused p then (c, p)
      else
        let c1 = c\<lparr>posX := f32 (posX c + speed c)\<rparr> in
        if posX c1 > 450 then
          (case randomFloat 150 280 p of
             (yv, p') \<Rightarrow> (c1\<lparr>posX := - 450, posY := yv\<rparr>, p'))
        else (c1, p))"

section \<open>CelestialBody\<close>

definition new_CelestialBody :: "real \<Rightarrow> real \<Rightarrow> real \<Rightarrow> Color \<Rightarrow> CelestialBody" where
  "new_CelestialBody px py rad col =
     \<lparr>posX = px, posY = py, visible = True, radius = rad, angle = 0, color = col\<rparr>"

definition CelestialBody_update ::
  "CelestialBody \<Rightarrow> 'a process_scheme \<Rightarrow> CelestialBody \<times> 'a process_scheme" where
  "CelestialBody_update b p =
     (if isPaused p \<or> \<not> animateCelestial p then (b, p)
      else
        let b1 = b\<lparr>angle := angle b + 0.3\<rparr> in
        (if angle b1 \<ge> 360 then b1\<lparr>angle := 0\<rparr> else b1, p))"

section \<open>Windmill\<close>

text \<open>
  The constructor increments the static \<open>windmillCount\<close> and takes the new value as the
  windmill's id; the destructor decrements it.
\<close>

definition new_Windmill ::
  "real \<Rightarrow> real \<Rightarrow> real \<Rightarrow> real \<Rightarrow> real \<Rightarrow> int \<Rightarrow> 'a process_scheme
     \<Rightarrow> Windmill \<times> 'a process_scheme" where
  "new_Windmill px py tWidth tHeight bLength blades p =
     (let p1 = p\<lparr>windmillCount := windmillCount p + 1\<rparr> in
      (\<lparr>posX = px, posY = py, visible = True,
        bladeAngle = 0, rotationSpeed = 2, isRotating = True,
        towerWidth = tWidth, towerHeight = tHeight, bladeLength = bLength,
        numBlades = blades, ident = windmillCount p1\<rparr>, p1))"

definition delete_Windmill :: "Windmill \<Rightarrow> 'a process_scheme \<Rightarrow> 'a process_scheme" where
  "delete_Windmill m p = p\<lparr>windmillCount := windmillCount p - 1\<rparr>"

definition Windmill_update ::
  "Windmill \<Rightarrow> 'a process_scheme \<Rightarrow> Windmill \<times> 'a process_scheme" where
  "Windmill_update m p =
     (if isPaused p \<or> \<not> isRotating m then (m, p)
      else
        let m1 = m\<lparr>bladeAngle := bladeAngle m + rotationSpeed m\<rparr> in
        (if bladeAngle m1 \<ge> 360 then m1\<lparr>bladeAngle := bladeAngle m1 - 360\<rparr> else m1, p))"

definition toggleRotation :: "Windmill \<Rightarrow> Windmill" where
  "toggleRotation m = m\<lparr>isRotating := \<not> isRotating m\<rparr>"

definition increaseSpeed :: "Windmill \<Rightarrow> Windmill" where
  "increaseSpeed m =
     (let m1 = m\<lparr>rotationSpeed := rotationSpeed m + 0.5\<rparr> in
      if rotationSpeed m1 > 15 then m1\<lparr>rotationSpeed := 15\<rparr> else m1)"

definition decreaseSpeed :: "Windmill \<Rightarrow> Windmill" where
  "decreaseSpeed m =
     (let m1 = m\<lparr>rotationSpeed := rotationSpeed m - 0.5\<rparr> in
      if rotationSpeed m1 < 0.5 then m1\<lparr>rotationSpeed := 0.5\<rparr> else m1)"

text \<open>A sequence of calls of the two speed mutators on one windmill.\<close>

datatype speed_call = IncreaseSpeed | DecreaseSpeed

fun speed_calls :: "speed_call list \<Rightarrow> Windmill \<Rightarrow> Windmill" where
  "speed_calls [] m = m"
| "speed_calls (IncreaseSpeed # cs) m = speed_calls cs (increaseSpeed m)"
| "speed_calls (DecreaseSpeed # cs) m = speed_calls cs (decreaseSpeed m)"

section \<open>Virtual dispatch of update\<close>

fun Drawable_update :: "object \<Rightarrow> 'a process_scheme \<Rightarrow> object \<times> 'a process_scheme" where
  "Drawable_update (ACloud c) p = (case Cloud_update c p of (c', p') \<Rightarrow> (ACloud c', p'))"
| "Drawable_update (ACelestialBody b) p =
     (case CelestialBody_update b p of (b', p') \<Rightarrow> (ACelestialBody b', p'))"
| "Drawable_update (AWindmill m) p =
     (case Windmill_update m p of (m', p') \<Rightarrow> (AWindmill m', p'))"

section \<open>Drawing\<close>

definition emit :: "gl_cmd list \<Rightarrow> 'a process_scheme \<Rightarrow> 'a process_scheme" where
  "emit cmds p = p\<lparr>gl := gl p @ cmds\<rparr>"

text \<open>\<open>drawCircle(cx, cy, radius, segments = 100)\<close>\<close>

definition drawCircle ::
  "real \<Rightarrow> real \<Rightarrow> real \<Rightarrow> int \<Rightarrow> 'a process_scheme \<Rightarrow> 'a process_scheme" where
  "drawCircle cx cy rad segments p =
     emit ([GlBegin GL_POLYGON]
           @ map (\<lambda>i. let theta = 2 * 3.14159 * real i / real_of_int segments;
                           vx = rad * cos theta;
                           vy = rad * sin theta
                       in GlVertex2f (vx + cx) (vy + cy)) [0..<nat segments]
           @ [GlEnd]) p"

definition Cloud_draw :: "Cloud \<Rightarrow> 'a process_scheme \<Rightarrow> Cloud \<times> 'a process_scheme" where
  "Cloud_draw c p =
     (if \<not> visible c then (c, p)
      else
        let p = emit [GlColor3f 1 1 1] p;
            p = drawCircle (posX c) (posY c) (cloudSize c) 100 p;
            p = drawCircle (posX c + cloudSize c * 0.8) (posY c + cloudSize c * 0.3)
                  (cloudSize c * 0.9) 100 p;
            p = drawCircle (posX c - cloudSize c * 0.8) (posY c + cloudSize c * 0.3)
                  (cloudSize c * 0.7) 100 p;
            p = drawCircle (posX c + cloudSize c * 0.4) (posY c - cloudSize c * 0.2)
                  (cloudSize c * 0.6) 100 p;
            p = drawCircle (posX c - cloudSize c * 0.4) (posY c - cloudSize c * 0.2)
                  (cloudSize c * 0.6) 100 p
        in (c, p))"

definition CelestialBody_draw ::
  "CelestialBody \<Rightarrow> 'a process_scheme \<Rightarrow> CelestialBody \<times> 'a process_scheme" where
  "CelestialBody_draw b p =
     (if \<not> visible b then (b, p)
      else
        let p = emit [GlColor3f (red (color b)) (green (color b)) (blue (color b))] p;
            p = (if isDay p then
                   emit (concat (map (\<lambda>i.
                     let rayAngle = (360 / 12) * real i * 3.14159 / 180;
                         x1 = posX b + (radius b + 5) * cos rayAngle;
                         y1 = posY b + (radius b + 5) * sin rayAngle;
                         x2 = posX b + (radius b + 15) * cos rayAngle;
                         y2 = posY b + (radius b + 15) * sin rayAngle
                     in [GlBegin GL_LINES, GlVertex2f x1 y1, GlVertex2f x2 y2, GlEnd])
                     [0..<12])) p
                 else p);
            p = drawCircle (posX b) (posY b) (radius b) 100 p
        in (b, p))"

definition drawTower :: "Windmill \<Rightarrow> 'a process_scheme \<Rightarrow> Windmill \<times> 'a process_scheme" where
  "drawTower m p =
     (m, emit
       [GlColor3f 0.55 0.27 0.07,
        GlBegin GL_POLYGON,
        GlVertex2f (posX m - towerWidth m / 2) (posY m),
        GlVertex2f (posX m + towerWidth m / 2) (posY m),
        GlVertex2f (posX m + towerWidth m / 3) (posY m + towerHeight m),
        GlVertex2f (posX m - towerWidth m / 3) (posY m + towerHeight m),
        GlEnd,
        GlColor3f 0.3 0.15 0.05,
        GlBegin GL_POLYGON,
        GlVertex2f (posX m - 8) (posY m),
        GlVertex2f (posX m + 8) (posY m),
        GlVertex2f (posX m + 8) (posY m + 30),
        GlVertex2f (posX m - 8) (posY m + 30),
        GlEnd] p)"

definition drawBlades :: "Windmill \<Rightarrow> 'a process_scheme \<Rightarrow> Windmill \<times> 'a process_scheme" where
  "drawBlades m p =
     (let centerX = posX m;
          centerY = posY m + towerHeight m;
          p = emit [GlPushMatrix,
                    GlTranslatef centerX centerY 0,
                    GlRotatef (bladeAngle m) 0 0 1] p;
          angleStep = 360 / real_of_int (numBlades m);
          p = emit (concat (map (\<lambda>i.
                [GlPushMatrix,
                 GlRotatef (real i * angleStep) 0 0 1,
                 GlColor3f 0.95 0.95 0.90,
                 GlBegin GL_POLYGON,
                 GlVertex2f 0 0,
                 GlVertex2f (- 5) (bladeLength m * 0.3),
                 GlVertex2f (- 3) (bladeLength m),
                 GlVertex2f 3 (bladeLength m),
                 GlVertex2f 5 (bladeLength m * 0.3),
                 GlEnd,
                 GlColor3f 0.7 0.7 0.65,
                 GlBegin GL_LINE_LOOP,
                 GlVertex2f 0 0,
                 GlVertex2f (- 5) (bladeLength m * 0.3),
                 GlVertex2f (- 3) (bladeLength m),
                 GlVertex2f 3 (bladeLength m),
                 GlVertex2f 5 (bladeLength m * 0.3),
                 GlEnd,
                 GlPopMatrix]) [0..<nat (numBlades m)])) p;
          p = emit [GlPopMatrix] p
      in (m, p))"

definition drawHub :: "Windmill \<Rightarrow> 'a process_scheme \<Rightarrow> Windmill \<times> 'a process_scheme" where
  "drawHub m p =
     (let centerX = posX m;
          centerY = posY m + towerHeight m;
          p = emit [GlColor3f 0.3 0.3 0.3] p;
          p = drawCircle centerX centerY 15 100 p;
          p = emit [GlColor3f 0.2 0.2 0.2] p;
          p = drawCircle centerX centerY 8 100 p
      in (m, p))"

definition drawSelectionIndicator ::
  "Windmill \<Rightarrow> 'a process_scheme \<Rightarrow> Windmill \<times> 'a process_scheme" where
  "drawSelectionIndicator m p =
     (if selectedWindmill p = ident m then
        let p = emit [GlColor3f 1 1 0, GlLineWidth 3] p;
            centerX = posX m;
            centerY = posY m + towerHeight m;
            p = emit ([GlBegin GL_LINE_LOOP]
                  @ map (\<lambda>i. let a = 2 * 3.14159 * real i / 50;
                                  px = centerX + 100 * cos a;
                                  py = centerY + 100 * sin a
                              in GlVertex2f px py) [0..<50]
                  @ [GlEnd]) p;
            p = emit [GlLineWidth 1] p
        in (m, p)
      else (m, p))"

definition Windmill_draw :: "Windmill \<Rightarrow> 'a process_scheme \<Rightarrow> Windmill \<times> 'a process_scheme" where
  "Windmill_draw m p =
     (if \<not> visible m then (m, p)
      else
        case drawTower m p of (m, p) \<Rightarrow>
        case drawBlades m p of (m, p) \<Rightarrow>
        case drawHub m p of (m, p) \<Rightarrow>
        drawSelectionIndicator m p)"

fun Drawable_draw :: "object \<Rightarrow> 'a process_scheme \<Rightarrow> object \<times> 'a process_scheme" where
  "Drawable_draw (ACloud c) p = (case Cloud_draw c p of (c', p') \<Rightarrow> (ACloud c', p'))"
| "Drawable_draw (ACelestialBody b) p =
     (case CelestialBody_draw b p of (b', p') \<Rightarrow> (ACelestialBody b', p'))"
| "Drawable_draw (AWindmill m) p =
     (case Windmill_draw m p of (m', p') \<Rightarrow> (AWindmill m', p'))"

section \<open>The heap and the Scene\<close>

text \<open>
  Objects created by \<open>new\<close> live in a heap, at addresses; a pointer is an address. A
  function returns \<open>None\<close> where the C++ program has undefined behaviour: it follows a
  null pointer or a pointer to a deleted object.
\<close>

type_synonym addr = nat

record Scene =
  objects :: "addr list"
  windmills :: "addr list"
  clouds :: "addr list"
  celestialBody :: "addr option"

text \<open>
  The whole program state: the process-wide state, the heap with the next address that
  \<open>new\<close> hands out (addresses are handed out in increasing order, so a new object
  never shares its address with another one), the global pointer \<open>scene\<close> with the
  Scene it points to (\<open>None\<close> is \<open>nullptr\<close>), and whether \<open>exit(0)\<close> has been called.
\<close>

record world = process +
  heap :: "addr \<rightharpoonup> object"
  next_addr :: addr
  scene :: "Scene option"
  exited :: bool

definition new_object :: "object \<Rightarrow> world \<Rightarrow> addr \<times> world" where
  "new_object obj w =
     (next_addr w, w\<lparr>heap := (heap w)(next_addr w \<mapsto> obj), next_addr := Suc (next_addr w)\<rparr>)"

text \<open>\<open>delete obj\<close> through a \<open>Drawable*\<close>: the virtual destructor runs, then the object is gone.\<close>

definition delete_object :: "addr \<Rightarrow> world \<Rightarrow> world option" where
  "delete_object a w =
     (case heap w a of
        None \<Rightarrow> None
      | Some obj \<Rightarrow>
          let w1 = (case obj of AWindmill m \<Rightarrow> delete_Windmill m w | _ \<Rightarrow> w)
          in Some (w1\<lparr>heap := (heap w1)(a := None)\<rparr>))"

definition new_Scene :: Scene where
  "new_Scene = \<lparr>objects = [], windmills = [], clouds = [], celestialBody = None\<rparr>"

definition addWindmill :: "addr \<Rightarrow> Scene \<Rightarrow> Scene" where
  "addWindmill a sc = sc\<lparr>windmills := windmills sc @ [a], objects := objects sc @ [a]\<rparr>"

definition addCloud :: "addr \<Rightarrow> Scene \<Rightarrow> Scene" where
  "addCloud a sc = sc\<lparr>clouds := clouds sc @ [a], objects := objects sc @ [a]\<rparr>"

definition setCelestialBody :: "addr \<Rightarrow> Scene \<Rightarrow> Scene" where
  "setCelestialBody a sc = sc\<lparr>celestialBody := Some a, objects := objects sc @ [a]\<rparr>"

text \<open>The loop \<open>for(auto obj : objects) obj->draw();\<close>\<close>

fun draw_each :: "addr list \<Rightarrow> world \<Rightarrow> world option" where
  "draw_each [] w = Some w"
| "draw_each (a # as) w =
     (case heap w a of
        None \<Rightarrow> None
      | Some obj \<Rightarrow>
          (case Drawable_draw obj w of
             (obj', w') \<Rightarrow> draw_each as (w'\<lparr>heap := (heap w')(a \<mapsto> obj')\<rparr>)))"

definition drawAll :: "Scene \<Rightarrow> world \<Rightarrow> world option" where
  "drawAll sc w = draw_each (objects sc) w"

text \<open>The loop \<open>for(auto obj : objects) obj->update();\<close>\<close>

fun update_each :: "addr list \<Rightarrow> world \<Rightarrow> world option" where
  "update_each [] w = Some w"
| "update_each (a # as) w =
     (case heap w a of
        None \<Rightarrow> None
      | Some obj \<Rightarrow>
          (case Drawable_update obj w of
             (obj', w') \<Rightarrow> update_each as (w'\<lparr>heap := (heap w')(a \<mapsto> obj')\<rparr>)))"

definition updateAll :: "Scene \<Rightarrow> world \<Rightarrow> world option" where
  "updateAll sc w = update_each (objects sc) w"

text \<open>The loop \<open>for(auto obj : objects) delete obj;\<close>\<close>

fun delete_each :: "addr list \<Rightarrow> world \<Rightarrow> world option" where
  "delete_each [] w = Some w"
| "delete_each (a # as) w =
     (case delete_object a w of None \<Rightarrow> None | Some w' \<Rightarrow> delete_each as w')"

definition clear :: "Scene \<Rightarrow> world \<Rightarrow> (Scene \<times> world) option" where
  "clear sc w =
     (case delete_each (objects sc) w of
        None \<Rightarrow> None
      | Some w' \<Rightarrow>
          Some (sc\<lparr>objects := [], windmills := [], clouds := [], celestialBody := None\<rparr>, w'))"

text \<open>\<open>Scene::~Scene()\<close>; the Scene itself is gone afterwards.\<close>

definition delete_Scene :: "Scene \<Rightarrow> world \<Rightarrow> world option" where
  "delete_Scene sc w = delete_each (objects sc) w"

section \<open>The application: rendering, timer, keyboard\<close>

definition drawBackground :: "'a process_scheme \<Rightarrow> 'a process_scheme" where
  "drawBackground p =
     (let p = (if isDay p then emit [GlClearColor 0.53 0.81 0.92 1] p
               else emit [GlClearColor 0.04 0.04 0.12 1] p);
          p = emit [GlClear] p;
          p = (if isDay p then emit [GlColor3f 0.13 0.55 0.13] p
               else emit [GlColor3f 0.08 0.23 0.08] p)
      in emit [GlBegin GL_POLYGON,
               GlVertex2f (- 500) (- 350),
               GlVertex2f 500 (- 350),
               GlVertex2f 500 (- 150),
               GlVertex2f (- 500) (- 150),
               GlEnd] p)"

text \<open>Decimal digits of a number, for \<open>sprintf\<close>.\<close>

fun digits :: "nat \<Rightarrow> string" where
  "digits n =
     (if n < 10 then [char_of (48 + n)]
      else digits (n div 10) @ [char_of (48 + n mod 10)])"

text \<open>The conversion \<open>%d\<close>.\<close>

definition format_d :: "int \<Rightarrow> string" where
  "format_d i = (if i < 0 then CHR ''-'' # digits (nat (- i)) else digits (nat i))"

text \<open>
  The conversion \<open>%.1f\<close>: one digit after the point. (At a tie the C library rounds the
  binary value to even; the speeds this program prints are multiples of 0.5, which have
  one decimal digit and are not rounded at all.)
\<close>

definition format_f1 :: "real \<Rightarrow> string" where
  "format_f1 v =
     (let t = round (\<bar>v\<bar> * 10)
      in (if v < 0 then ''-'' else '''')
         @ digits (nat (t div 10)) @ ''.'' @ digits (nat (t mod 10)))"

text \<open>
  \<open>drawHUD()\<close> follows the global pointer \<open>scene\<close> without a null check, and the
  selected windmill's pointer when the selection is in range.
\<close>

definition drawHUD :: "world \<Rightarrow> world option" where
  "drawHUD w =
     (let w = emit [GlColor3f 1 1 1] w;
          w = emit [GlRasterPos2f (- 480) 320] w;
          title = ''Enhanced Windmill Simulation - OOP Project'';
          w = emit (map (GlutBitmapCharacter GLUT_BITMAP_HELVETICA_18) title) w;
          w = emit [GlRasterPos2f (- 480) 295] w;
          mode = ''Mode: '' @ (if isDay w then ''DAY'' else ''NIGHT'')
                 @ (if isPaused w then '' (PAUSED)'' else '''');
          w = emit (map (GlutBitmapCharacter GLUT_BITMAP_HELVETICA_12) mode) w
      in case scene w of
           None \<Rightarrow> None
         | Some sc \<Rightarrow>
             (case (if windmills sc \<noteq> [] \<and> selectedWindmill w > 0
                       \<and> selectedWindmill w \<le> int (length (windmills sc))
                    then (case heap w (windmills sc ! nat (selectedWindmill w - 1)) of
                            Some (AWindmill selected) \<Rightarrow>
                              let w = emit [GlRasterPos2f (- 480) 275] w;
                                  info = ''Windmill #'' @ format_d (selectedWindmill w)
                                         @ '': Speed = '' @ format_f1 (rotationSpeed selected)
                                         @ '' | Status = ''
                                         @ (if isRotating selected then ''ROTATING''
                                            else ''STOPPED'')
                              in Some (emit (map (GlutBitmapCharacter
                                               GLUT_BITMAP_HELVETICA_12) info) w)
                          | _ \<Rightarrow> None)
                    else Some w) of
                None \<Rightarrow> None
              | Some w \<Rightarrow>
                  let yPos = - 320;
                      w = emit [GlRasterPos2f (- 480) yPos] w;
                      controls = ''Controls: 1/2/3-Select | +/-Speed | D-Day | N-Night | C-Cloud | W-Windmill | S-Sun | P-Pause | R-Reset | Q-Quit''
                  in Some (emit (map (GlutBitmapCharacter GLUT_BITMAP_8_BY_13) controls) w)))"

definition display :: "world \<Rightarrow> world option" where
  "display w =
     (let w = drawBackground w
      in case (case scene w of None \<Rightarrow> Some w | Some sc \<Rightarrow> drawAll sc w) of
           None \<Rightarrow> None
         | Some w \<Rightarrow>
             (case drawHUD w of
                None \<Rightarrow> None
              | Some w \<Rightarrow> Some (emit [GlutSwapBuffers] w)))"

text \<open>
  \<open>timer(value)\<close>; the call \<open>glutTimerFunc(16, timer, 0)\<close>, which asks the run loop for
  the next tick, is the run loop's business.
\<close>

definition timer :: "world \<Rightarrow> world option" where
  "timer w =
     (case (case scene w of None \<Rightarrow> Some w | Some sc \<Rightarrow> updateAll sc w) of
        None \<Rightarrow> None
      | Some w \<Rightarrow> Some (w\<lparr>redisplay := True\<rparr>))"

text \<open>
  \<open>keyboard(key, x, y)\<close>: the \<open>switch\<close> over the key, then \<open>glutPostRedisplay()\<close>,
  which the quit branch does not reach. The mouse position \<open>x\<close>, \<open>y\<close> is not used.
  In the quit branch \<open>delete scene\<close> runs the Scene's destructor (on a null pointer it
  does nothing); the Scene is gone afterwards, which \<open>scene := None\<close> records, and
  \<open>exit(0)\<close> ends the run.
\<close>

definition keyboard :: "char \<Rightarrow> world \<Rightarrow> world option" where
  "keyboard key w =
     (if key = CHR ''q'' \<or> key = CHR ''Q'' \<or> key = CHR 0x1B then
        let w = w\<lparr>cout := cout w @ [Str ''Exiting...'', Endl]\<rparr>
        in (case (case scene w of
                    None \<Rightarrow> Some w
                  | Some sc \<Rightarrow> delete_Scene sc w) of
              None \<Rightarrow> None
            | Some w \<Rightarrow> Some (w\<lparr>scene := None, exited := True\<rparr>))
      else
        case
         (if key = CHR ''1'' \<or> key = CHR ''2'' \<or> key = CHR ''3'' \<or> key = CHR ''4''
             \<or> key = CHR ''5'' then
            (let selection = of_char key - of_char CHR ''0'' in
             case scene w of
               None \<Rightarrow> None
             | Some sc \<Rightarrow>
                 if selection > 0 \<and> selection \<le> int (length (windmills sc)) then
                   Some (w\<lparr>selectedWindmill := selection,
                           cout := cout w @ [Str ''Selected Windmill #'', IntV selection, Endl]\<rparr>)
                 else Some w)
          else if key = CHR ''+'' \<or> key = CHR ''='' then
            (case scene w of
               None \<Rightarrow> None
             | Some sc \<Rightarrow>
                 if windmills sc \<noteq> [] \<and> selectedWindmill w > 0
                    \<and> selectedWindmill w \<le> int (length (windmills sc)) then
                   (let a = windmills sc ! nat (selectedWindmill w - 1) in
                    case heap w a of
                      Some (AWindmill m) \<Rightarrow>
                        let m' = increaseSpeed m
                        in Some (w\<lparr>heap := (heap w)(a \<mapsto> AWindmill m'),
                                   cout := cout w @ [Str ''Speed increased to: '',
                                                     FloatV (rotationSpeed m'), Endl]\<rparr>)
                    | _ \<Rightarrow> None)
                 else Some w)
          else if key = CHR ''-'' \<or> key = CHR ''_'' then
            (case scene w of
               None \<Rightarrow> None
             | Some sc \<Rightarrow>
                 if windmills sc \<noteq> [] \<and> selectedWindmill w > 0
                    \<and> selectedWindmill w \<le> int (length (windmills sc)) then
                   (let a = windmills sc ! nat (selectedWindmill w - 1) in
                    case heap w a of
                      Some (AWindmill m) \<Rightarrow>
                        let m' = decreaseSpeed m
                        in Some (w\<lparr>heap := (heap w)(a \<mapsto> AWindmill m'),
                                   cout := cout w @ [Str ''Speed decreased to: '',
                                                     FloatV (rotationSpeed m'), Endl]\<rparr>)
                    | _ \<Rightarrow> None)
                 else Some w)
          else if key = CHR ''d'' \<or> key = CHR ''D'' then
            Some (w\<lparr>isDay := True, cout := cout w @ [Str ''Switched to DAY mode'', Endl]\<rparr>)
          else if key = CHR ''n'' \<or> key = CHR ''N'' then
            Some (w\<lparr>isDay := False, cout := cout w @ [Str ''Switched to NIGHT mode'', Endl]\<rparr>)
          else if key = CHR ''c'' \<or> key = CHR ''C'' then
            (case randomFloat (- 450) 450 w of (cloudX, w) \<Rightarrow>
             case randomFloat 150 280 w of (cloudY, w) \<Rightarrow>
             case randomFloat (f32 0.2) 0.5 w of (cloudSpeed, w) \<Rightarrow>
             case new_object (ACloud (new_Cloud cloudX cloudY cloudSpeed 25)) w of (a, w) \<Rightarrow>
             case scene w of
               None \<Rightarrow> None
             | Some sc \<Rightarrow>
                 Some (w\<lparr>scene := Some (addCloud a sc),
                         cout := cout w @ [Str ''Added new cloud'', Endl]\<rparr>))
          else if key = CHR ''w'' \<or> key = CHR ''W'' then
            (case randomFloat (- 400) 400 w of (windmillX, w) \<Rightarrow>
             case randomFloat (- 300) (- 180) w of (windmillY, w) \<Rightarrow>
             case new_Windmill windmillX windmillY 30 120 80 4 w of (m, w) \<Rightarrow>
             case new_object (AWindmill m) w of (a, w) \<Rightarrow>
             case scene w of
               None \<Rightarrow> None
             | Some sc \<Rightarrow>
                 Some (w\<lparr>scene := Some (addWindmill a sc),
                         cout := cout w @ [Str ''Added Windmill #'',
                                           IntV (windmillCount w), Endl]\<rparr>))
          else if key = CHR ''s'' \<or> key = CHR ''S'' then
            (let w = w\<lparr>animateCelestial := \<not> animateCelestial w\<rparr>
             in Some (w\<lparr>cout := cout w @ [Str ''Sun/Moon animation: '',
                                          Str (if animateCelestial w then ''ON'' else ''OFF''),
                                          Endl]\<rparr>))
          else if key = CHR ''p'' \<or> key = CHR ''P'' then
            (let w = w\<lparr>isPaused := \<not> isPaused w\<rparr>
             in Some (w\<lparr>cout := cout w @ [Str ''Simulation: '',
                                          Str (if isPaused w then ''PAUSED'' else ''RESUMED''),
                                          Endl]\<rparr>))
          else if key = CHR ''r'' \<or> key = CHR ''R'' then
            (let w = w\<lparr>cout := cout w @ [Str ''Resetting simulation...'', Endl]\<rparr>
             in case scene w of
                  None \<Rightarrow> None
                | Some sc \<Rightarrow>
                    (case clear sc w of
                       None \<Rightarrow> None
                     | Some (sc', w) \<Rightarrow> Some (w\<lparr>scene := Some sc', selectedWindmill := 1\<rparr>)))
          else Some w)
        of
          None \<Rightarrow> None
        | Some w \<Rightarrow> Some (w\<lparr>redisplay := True\<rparr>))"

text \<open>
  \<open>initScene()\<close>. \<open>srand(time(NULL))\<close> seeds the generator; \<open>rand_seq\<close> stands for the
  values it returns after that.
\<close>

definition initScene :: "world \<Rightarrow> world" where
  "initScene w =
     (let sc = new_Scene;
          (m, w) = new_Windmill (- 250) (- 200) 30 120 80 4 w;
          (a, w) = new_object (AWindmill m) w;
          sc = addWindmill a sc;
          (m, w) = new_Windmill 100 (- 220) 35 130 90 4 w;
          (a, w) = new_object (AWindmill m) w;
          sc = addWindmill a sc;
          (m, w) = new_Windmill 350 (- 210) 28 110 75 4 w;
          (a, w) = new_object (AWindmill m) w;
          sc = addWindmill a sc;
          (a, w) = new_object (ACloud (new_Cloud (- 300) 220 (f32 0.3) 25)) w;
          sc = addCloud a sc;
          (a, w) = new_object (ACloud (new_Cloud 0 250 0.25 30)) w;
          sc = addCloud a sc;
          (a, w) = new_object (ACloud (new_Cloud 250 200 (f32 0.35) 28)) w;
          sc = addCloud a sc;
          (a, w) = new_object (ACelestialBody (new_CelestialBody 350 250 30
                      \<lparr>red = 1, green = 0.95, blue = 0\<rparr>)) w;
          sc = setCelestialBody a sc
      in w\<lparr>scene := Some sc\<rparr>)"

text \<open>
  The state when \<open>main\<close> starts: the static initialisers have run, nothing is allocated.
  The parameters are the C library's \<open>RAND_MAX\<close> and the values \<open>rand()\<close> will return.
\<close>

definition start_world :: "int \<Rightarrow> int stream \<Rightarrow> world" where
  "start_world rmax rs =
     \<lparr>isDay = True, isPaused = False, animateCelestial = True,
      windmillCount = 0, selectedWindmill = 1,
      RAND_MAX = rmax, rand_seq = rs, cout = [], gl = [], redisplay = False,
      heap = Map.empty, next_addr = 0, scene = None, exited = False\<rparr>"

text \<open>
  The run loop calls the three callbacks, one at a time, until \<open>exit(0)\<close>.
\<close>

datatype event = Key char | Timer | Display

fun step :: "event \<Rightarrow> world \<Rightarrow> world option" where
  "step (Key k) w = keyboard k w"
| "step Timer w = timer w"
| "step Display w = display w"

fun run :: "event list \<Rightarrow> world \<Rightarrow> world option" where
  "run [] w = Some w"
| "run (e # es) w =
     (if exited w then Some w
      else case step e w of None \<Rightarrow> None | Some w' \<Rightarrow> run es w')"

section \<open>Observations, invariants and concrete inputs\<close>

text \<open>The id an object carries: windmills have one, clouds and celestial bodies do not.\<close>

fun object_ident :: "object \<Rightarrow> int option" where
  "object_ident (AWindmill m) = Some (ident m)"
| "object_ident _ = None"

text \<open>The id of the windmill at an address, if a windmill lives there.\<close>

definition ident_at :: "world \<Rightarrow> addr \<Rightarrow> int option" where
  "ident_at w a = (case heap w a of None \<Rightarrow> None | Some obj \<Rightarrow> object_ident obj)"

definition windmill_at :: "world \<Rightarrow> addr \<Rightarrow> bool" where
  "windmill_at w a = (ident_at w a \<noteq> None)"

text \<open>The ids of the scene's windmills, in the order of the \<open>windmills\<close> vector.\<close>

definition scene_idents :: "world \<Rightarrow> int option list" where
  "scene_idents w =
     (case scene w of None \<Rightarrow> [] | Some sc \<Rightarrow> map (ident_at w) (windmills sc))"

text \<open>
  A scene owns its objects: every pointer in the master sequence points to a live
  object, and no pointer occurs twice.
\<close>

definition owns :: "Scene \<Rightarrow> world \<Rightarrow> bool" where
  "owns sc w = (distinct (objects sc) \<and> (\<forall>a\<in>set (objects sc). heap w a \<noteq> None))"

text \<open>
  What holds of the program state between two callbacks, as long as the program runs:
  the scene exists and owns exactly the live objects, the \<open>windmills\<close> vector lists the
  windmills among them in order, the k-th windmill has id k, \<open>windmillCount\<close> is their
  number, and the selected index is 1 or the index of a windmill of the scene.
\<close>

definition scene_inv :: "world \<Rightarrow> bool" where
  "scene_inv w =
     (\<exists>sc. scene w = Some sc
        \<and> distinct (objects sc)
        \<and> (\<forall>a\<in>set (objects sc). a < next_addr w)
        \<and> dom (heap w) = set (objects sc)
        \<and> windmills sc = filter (windmill_at w) (objects sc)
        \<and> map (ident_at w) (windmills sc)
            = map (\<lambda>k. Some (int k)) [1..<Suc (length (windmills sc))]
        \<and> windmillCount w = int (length (windmills sc))
        \<and> (selectedWindmill w = 1
            \<or> (1 \<le> selectedWindmill w
                \<and> selectedWindmill w \<le> int (length (windmills sc)))))"

text \<open>Two states with the same scene, the same live addresses and the same windmill ids.\<close>

definition same_scene :: "world \<Rightarrow> world \<Rightarrow> bool" where
  "same_scene w w' =
     (scene w' = scene w \<and> next_addr w' = next_addr w \<and> windmillCount w' = windmillCount w
      \<and> exited w' = exited w \<and> dom (heap w') = dom (heap w) \<and> ident_at w' = ident_at w)"

text \<open>A process state with nothing paused, and the program right after \<open>initScene()\<close>.\<close>

definition proc0 :: process where
  "proc0 = \<lparr>isDay = True, isPaused = False, animateCelestial = True,
     windmillCount = 0, selectedWindmill = 1, RAND_MAX = 32767,
     rand_seq = sconst 16384, cout = [], gl = [], redisplay = False\<rparr>"

definition world0 :: world where
  "world0 = initScene (start_world 32767 (sconst 16384))"

text \<open>The scene that \<open>initScene()\<close> builds: three windmills, three clouds, the sun.\<close>

definition scene0 :: Scene where
  "scene0 = \<lparr>objects = [0, 1, 2, 3, 4, 5, 6], windmills = [0, 1, 2],
              clouds = [3, 4, 5], celestialBody = Some 6\<rparr>"

section \<open>Verification\<close>

subsection \<open>Speed control\<close>

lemma speed_range_increaseSpeed:
  "1/2 \<le> rotationSpeed m \<Longrightarrow> rotationSpeed m \<le> 15 \<Longrightarrow>
   1/2 \<le> rotationSpeed (increaseSpeed m) \<and> rotationSpeed (increaseSpeed m) \<le> 15"
  by (simp add: increaseSpeed_def Let_def)

lemma speed_range_decreaseSpeed:
  "1/2 \<le> rotationSpeed m \<Longrightarrow> rotationSpeed m \<le> 15 \<Longrightarrow>
   1/2 \<le> rotationSpeed (decreaseSpeed m) \<and> rotationSpeed (decreaseSpeed m) \<le> 15"
  by (simp add: decreaseSpeed_def Let_def)

lemma speed_range_speed_calls:
  "1/2 \<le> rotationSpeed m \<Longrightarrow> rotationSpeed m \<le> 15 \<Longrightarrow>
   1/2 \<le> rotationSpeed (speed_calls cs m) \<and> rotationSpeed (speed_calls cs m) \<le> 15"
proof (induction cs m rule: speed_calls.induct)
  case (1 m)
  then show ?case by simp
next
  case (2 cs m)
  then show ?case using speed_range_increaseSpeed [of m] by simp
next
  case (3 cs m)
  then show ?case using speed_range_decreaseSpeed [of m] by simp
qed

lemma rotationSpeed_new_Windmill:
  "rotationSpeed (fst (new_Windmill px py tw th bl n p)) = 2"
  by (simp add: new_Windmill_def Let_def)

text \<open>
  Claim C3. A windmill is constructed with rotation speed 2; after any sequence of
  \<open>increaseSpeed()\<close> and \<open>decreaseSpeed()\<close> calls its rotation speed lies in [0.5, 15].
  Each call moves the speed by the step 0.5 and clamps it: \<open>increaseSpeed\<close> yields
  \<open>min 15 (speed + 0.5)\<close>, \<open>decreaseSpeed\<close> yields \<open>max 0.5 (speed - 0.5)\<close>, no other
  field changes, and both are total functions (there is no error result).
\<close>

theorem rotationSpeed_stays_clamped:
  "1/2 \<le> rotationSpeed (speed_calls cs (fst (new_Windmill px py tw th bl n p)))
   \<and> rotationSpeed (speed_calls cs (fst (new_Windmill px py tw th bl n p))) \<le> 15
   \<and> increaseSpeed m = m\<lparr>rotationSpeed := min 15 (rotationSpeed m + 1/2)\<rparr>
   \<and> decreaseSpeed m = m\<lparr>rotationSpeed := max (1/2) (rotationSpeed m - 1/2)\<rparr>"
proof -
  let ?w = "fst (new_Windmill px py tw th bl n p)"
  have "1/2 \<le> rotationSpeed ?w" "rotationSpeed ?w \<le> 15"
    by (simp_all add: rotationSpeed_new_Windmill)
  then have "1/2 \<le> rotationSpeed (speed_calls cs ?w) \<and> rotationSpeed (speed_calls cs ?w) \<le> 15"
    by (rule speed_range_speed_calls)
  moreover have "increaseSpeed m = m\<lparr>rotationSpeed := min 15 (rotationSpeed m + 1/2)\<rparr>"
    by (simp add: increaseSpeed_def Let_def min_def)
  moreover have "decreaseSpeed m = m\<lparr>rotationSpeed := max (1/2) (rotationSpeed m - 1/2)\<rparr>"
    by (simp add: decreaseSpeed_def Let_def max_def)
  ultimately show ?thesis by simp
qed

subsection \<open>Update ticks of the entities\<close>

text \<open>
  Claim C4. While the global pause flag is set, \<open>update()\<close> of any entity (Cloud,
  CelestialBody or Windmill, through the virtual call) returns the entity with every
  field unchanged, and leaves the process-wide state unchanged as well.
\<close>

theorem update_paused_noop:
  "isPaused p \<Longrightarrow> Drawable_update obj p = (obj, p)"
  by (cases obj) (simp_all add: Cloud_update_def CelestialBody_update_def Windmill_update_def)

theorem update_paused_noop_witness:
  "isPaused (proc0\<lparr>isPaused := True\<rparr>)
   \<and> Drawable_update (ACloud (new_Cloud 490 200 5 25)) (proc0\<lparr>isPaused := True\<rparr>)
       = (ACloud (new_Cloud 490 200 5 25), proc0\<lparr>isPaused := True\<rparr>)
   \<and> Drawable_update (AWindmill (fst (new_Windmill 0 0 30 120 80 4 proc0)))
         (proc0\<lparr>isPaused := True\<rparr>)
       = (AWindmill (fst (new_Windmill 0 0 30 120 80 4 proc0)), proc0\<lparr>isPaused := True\<rparr>)"
  using update_paused_noop [of "proc0\<lparr>isPaused := True\<rparr>" "ACloud (new_Cloud 490 200 5 25)"]
    update_paused_noop [of "proc0\<lparr>isPaused := True\<rparr>"
      "AWindmill (fst (new_Windmill 0 0 30 120 80 4 proc0))"]
  by (simp add: proc0_def)

text \<open>
  Claim C5, as stated, fails for the celestial body: its wrap is not modular. From the
  angle 359.75 an active tick does not lead to 0.05, the value of 359.75 + 0.3 reduced
  modulo 360, but to 0.
\<close>

theorem celestial_wrap_not_modular:
  "angle (fst (CelestialBody_update
       ((new_CelestialBody 350 250 30 \<lparr>red = 1, green = 0.95, blue = 0\<rparr>)\<lparr>angle := 359.75\<rparr>)
       proc0)) = 0
   \<and> angle (fst (CelestialBody_update
       ((new_CelestialBody 350 250 30 \<lparr>red = 1, green = 0.95, blue = 0\<rparr>)\<lparr>angle := 359.75\<rparr>)
       proc0))
     \<noteq> 359.75 + 0.3 - 360 * real_of_int \<lfloor>(359.75 + 0.3) / 360 :: real\<rfloor>"
proof -
  have "\<lfloor>(359.75 + 0.3) / 360 :: real\<rfloor> = 1"
    by (intro floor_unique) simp_all
  then show ?thesis
    by (simp add: CelestialBody_update_def new_CelestialBody_def proc0_def Let_def)
qed

text \<open>
  Claim C5, amended. If a windmill's \<open>bladeAngle\<close> is in [0, 360) and its rotation
  speed is in [0.5, 15], the blade angle is in [0, 360) after one \<open>update()\<close>; if the
  celestial body's \<open>angle\<close> (the animation phase) is in [0, 360), it is in [0, 360)
  after one \<open>update()\<close>. The blade angle wraps modulo 360: an unpaused, rotating
  windmill ends the tick at \<open>bladeAngle + rotationSpeed\<close> reduced modulo 360, so from
  359 with speed 2 it reaches 1. The celestial angle wraps by a reset: an active tick
  that raises it to 360 or more leaves it at 0.
\<close>

theorem angles_stay_in_range:
  "(0 \<le> bladeAngle m \<and> bladeAngle m < 360 \<and> 1/2 \<le> rotationSpeed m \<and> rotationSpeed m \<le> 15
      \<longrightarrow> 0 \<le> bladeAngle (fst (Windmill_update m p))
          \<and> bladeAngle (fst (Windmill_update m p)) < 360)
   \<and> (0 \<le> angle b \<and> angle b < 360
      \<longrightarrow> 0 \<le> angle (fst (CelestialBody_update b p))
          \<and> angle (fst (CelestialBody_update b p)) < 360)
   \<and> (0 \<le> bladeAngle m \<and> bladeAngle m < 360 \<and> 1/2 \<le> rotationSpeed m \<and> rotationSpeed m \<le> 15
        \<and> \<not> isPaused p \<and> isRotating m
      \<longrightarrow> bladeAngle (fst (Windmill_update m p))
            = bladeAngle m + rotationSpeed m
              - 360 * of_int \<lfloor>(bladeAngle m + rotationSpeed m) / 360\<rfloor>)
   \<and> (bladeAngle m = 359 \<and> rotationSpeed m = 2 \<and> \<not> isPaused p \<and> isRotating m
      \<longrightarrow> bladeAngle (fst (Windmill_update m p)) = 1)
   \<and> (\<not> isPaused p \<and> animateCelestial p \<and> 360 \<le> angle b + 0.3
      \<longrightarrow> angle (fst (CelestialBody_update b p)) = 0)"
proof -
  have A: "0 \<le> bladeAngle (fst (Windmill_update m p))
           \<and> bladeAngle (fst (Windmill_update m p)) < 360"
    if "0 \<le> bladeAngle m" "bladeAngle m < 360" "1/2 \<le> rotationSpeed m" "rotationSpeed m \<le> 15"
    using that by (simp add: Windmill_update_def Let_def)
  have B: "0 \<le> angle (fst (CelestialBody_update b p))
           \<and> angle (fst (CelestialBody_update b p)) < 360"
    if "0 \<le> angle b" "angle b < 360"
    using that by (simp add: CelestialBody_update_def Let_def)
  have C: "bladeAngle (fst (Windmill_update m p))
            = bladeAngle m + rotationSpeed m
              - 360 * of_int \<lfloor>(bladeAngle m + rotationSpeed m) / 360\<rfloor>"
    if h: "0 \<le> bladeAngle m" "bladeAngle m < 360" "1/2 \<le> rotationSpeed m"
       "rotationSpeed m \<le> 15" "\<not> isPaused p" "isRotating m"
  proof (cases "bladeAngle m + rotationSpeed m \<ge> 360")
    case True
    with h have "\<lfloor>(bladeAngle m + rotationSpeed m) / 360\<rfloor> = 1"
      by (intro floor_unique) simp_all
    with True h show ?thesis by (simp add: Windmill_update_def Let_def)
  next
    case False
    with h have "\<lfloor>(bladeAngle m + rotationSpeed m) / 360\<rfloor> = 0"
      by (intro floor_unique) simp_all
    with False h show ?thesis by (simp add: Windmill_update_def Let_def)
  qed
  have D: "bladeAngle (fst (Windmill_update m p)) = 1"
    if "bladeAngle m = 359" "rotationSpeed m = 2" "\<not> isPaused p" "isRotating m"
    using that by (simp add: Windmill_update_def Let_def)
  have E: "angle (fst (CelestialBody_update b p)) = 0"
    if "\<not> isPaused p" "animateCelestial p" "360 \<le> angle b + 0.3"
    using that by (simp add: CelestialBody_update_def Let_def)
  from A B C D E show ?thesis by blast
qed

theorem angles_stay_in_range_witness:
  "bladeAngle ((fst (new_Windmill 0 0 30 120 80 4 proc0))\<lparr>bladeAngle := 359\<rparr>) = 359
   \<and> rotationSpeed ((fst (new_Windmill 0 0 30 120 80 4 proc0))\<lparr>bladeAngle := 359\<rparr>) = 2
   \<and> \<not> isPaused proc0 \<and> animateCelestial proc0
   \<and> isRotating ((fst (new_Windmill 0 0 30 120 80 4 proc0))\<lparr>bladeAngle := 359\<rparr>)
   \<and> bladeAngle (fst (Windmill_update
        ((fst (new_Windmill 0 0 30 120 80 4 proc0))\<lparr>bladeAngle := 359\<rparr>) proc0)) = 1
   \<and> (0::real) \<le> 359.9 \<and> (359.9::real) < 360 \<and> (360::real) \<le> 359.9 + 0.3
   \<and> angle (fst (CelestialBody_update
        ((new_CelestialBody 350 250 30 \<lparr>red = 1, green = 0.95, blue = 0\<rparr>)\<lparr>angle := 359.9\<rparr>)
        proc0)) = 0
   \<and> angle (fst (CelestialBody_update
        ((new_CelestialBody 350 250 30 \<lparr>red = 1, green = 0.95, blue = 0\<rparr>)\<lparr>angle := 359.9\<rparr>)
        proc0)) < 360"
  using angles_stay_in_range [of
      "(fst (new_Windmill 0 0 30 120 80 4 proc0))\<lparr>bladeAngle := 359\<rparr>" proc0
      "(new_CelestialBody 350 250 30 \<lparr>red = 1, green = 0.95, blue = 0\<rparr>)\<lparr>angle := 359.9\<rparr>"]
  by (simp add: proc0_def new_Windmill_def new_CelestialBody_def Let_def)

subsection \<open>Properties of the rounding\<close>

lemma round_even_of_int: "round_even (of_int n) = n"
  by (simp add: round_even_def)

lemma round_even_lower: "of_int n \<le> y \<Longrightarrow> n \<le> round_even y"
  by (simp add: round_even_def Let_def) linarith

lemma round_even_upper: "y \<le> of_int n \<Longrightarrow> round_even y \<le> n"
  by (simp add: round_even_def Let_def) linarith

lemma round_even_mono: "x \<le> y \<Longrightarrow> round_even x \<le> round_even y"
proof -
  assume xy: "x \<le> y"
  have fx: "\<lfloor>x\<rfloor> \<le> \<lfloor>y\<rfloor>" using xy by (rule floor_mono)
  show ?thesis
  proof (cases "\<lfloor>x\<rfloor> = \<lfloor>y\<rfloor>")
    case True
    with xy show ?thesis by (auto simp add: round_even_def Let_def)
  next
    case False
    with fx have "\<lfloor>x\<rfloor> + 1 \<le> \<lfloor>y\<rfloor>" by simp
    moreover have "round_even x \<le> \<lfloor>x\<rfloor> + 1" by (simp add: round_even_def Let_def)
    moreover have "\<lfloor>y\<rfloor> \<le> round_even y" by (simp add: round_even_def Let_def)
    ultimately show ?thesis by linarith
  qed
qed

lemma round_even_error: "\<bar>of_int (round_even y) - y\<bar> \<le> 1/2"
  by (simp add: round_even_def Let_def)

lemma binade_ex:
  assumes "0 < (x::real)"
  shows "2 powr of_int \<lfloor>log 2 x\<rfloor> \<le> x \<and> x < 2 powr of_int (\<lfloor>log 2 x\<rfloor> + 1)"
  using assms floor_log_eq_powr_iff [of x 2 "\<lfloor>log 2 x\<rfloor>"] by simp

lemma ulp32_pos: "0 < ulp32 x"
  by (simp add: ulp32_def)

lemma f32_ulp: "x \<noteq> 0 \<Longrightarrow> f32 x = of_int (round_even (x / ulp32 x)) * ulp32 x"
  by (simp add: f32_def ulp32_def Let_def)

lemma f32_at_abs:
  assumes "x \<noteq> 0" "2 powr of_int k \<le> \<bar>x\<bar>" "\<bar>x\<bar> < 2 powr of_int (k + 1)" "- 126 \<le> k"
  shows "f32 x = of_int (round_even (x / 2 powr of_int (k - 23))) * 2 powr of_int (k - 23)"
proof -
  have "\<lfloor>log 2 \<bar>x\<bar>\<rfloor> = k"
    using assms by (subst floor_log_eq_powr_iff) simp_all
  with assms(1,4) show ?thesis by (simp add: f32_def Let_def max_def)
qed

lemma f32_nonneg:
  assumes "0 \<le> x"
  shows "0 \<le> f32 x"
proof (cases "x = 0")
  case True
  then show ?thesis by (simp add: f32_def)
next
  case False
  have "of_int 0 \<le> x / ulp32 x" using assms ulp32_pos [of x] by simp
  then have "0 \<le> round_even (x / ulp32 x)" by (rule round_even_lower)
  then show ?thesis using False ulp32_pos [of x] by (simp add: f32_ulp)
qed

lemma f32_binade:
  assumes "0 < x" "2 powr of_int k \<le> x" "x < 2 powr of_int (k + 1)" "- 126 \<le> k"
  shows "2 powr of_int k \<le> f32 x \<and> f32 x \<le> 2 powr of_int (k + 1)"
proof -
  define u :: real where "u = 2 powr of_int (k - 23)"
  have u: "0 < u" by (simp add: u_def)
  have lo: "2 powr of_int k = 2 ^ 23 * u"
    unfolding u_def by (simp add: powr_diff)
  have hi: "2 powr of_int (k + 1) = 2 ^ 24 * u"
    unfolding u_def by (simp add: powr_diff powr_add)
  have e: "f32 x = of_int (round_even (x / u)) * u"
    unfolding u_def using assms by (intro f32_at_abs) simp_all
  from assms(2) have xl: "2 ^ 23 * u \<le> x" by (simp only: lo)
  from assms(3) have xh: "x < 2 ^ 24 * u" by (simp only: hi)
  have "of_int (2 ^ 23) \<le> x / u"
    using xl u by (simp add: pos_le_divide_eq)
  then have 1: "2 ^ 23 \<le> round_even (x / u)" by (rule round_even_lower)
  have "x / u \<le> of_int (2 ^ 24)"
    using xh u by (simp add: pos_divide_le_eq)
  then have 2: "round_even (x / u) \<le> 2 ^ 24" by (rule round_even_upper)
  have "2 ^ 23 * u \<le> of_int (round_even (x / u)) * u"
    using 1 u by (intro mult_right_mono) (simp_all add: of_int_le_iff [of "2 ^ 23", simplified])
  moreover have "of_int (round_even (x / u)) * u \<le> 2 ^ 24 * u"
    using 2 u by (intro mult_right_mono) (simp_all add: of_int_le_iff [of _ "2 ^ 24", simplified])
  ultimately show ?thesis by (simp only: e lo hi)
qed

text \<open>Above by the next power of two, also in the subnormal range.\<close>

lemma f32_upper_pow:
  assumes "0 < x" "x < 2 powr of_int (k + 1)" "\<lfloor>log 2 x\<rfloor> \<le> k" "- 126 \<le> k"
  shows "f32 x \<le> 2 powr of_int (k + 1)"
proof -
  define j where "j = max \<lfloor>log 2 x\<rfloor> (- 126)"
  define u :: real where "u = 2 powr of_int (j - 23)"
  have u: "0 < u" by (simp add: u_def)
  have jk: "j \<le> k" using assms(3,4) by (simp add: j_def)
  have "x < 2 powr of_int (\<lfloor>log 2 x\<rfloor> + 1)" using binade_ex [OF assms(1)] by simp
  also have "\<dots> \<le> 2 powr of_int (j + 1)" by (simp add: j_def del: of_int_add)
  finally have xj: "x < 2 powr of_int (j + 1)" .
  have hi: "2 powr of_int (j + 1) = 2 ^ 24 * u"
    unfolding u_def by (simp add: powr_diff powr_add)
  from xj have xh: "x < 2 ^ 24 * u" by (simp only: hi)
  have e: "f32 x = of_int (round_even (x / u)) * u"
    using assms(1) by (simp add: f32_def Let_def u_def j_def)
  have "x / u \<le> of_int (2 ^ 24)"
    using xh u by (simp add: pos_divide_le_eq)
  then have "round_even (x / u) \<le> 2 ^ 24" by (rule round_even_upper)
  then have "of_int (round_even (x / u)) * u \<le> 2 ^ 24 * u"
    using u by (intro mult_right_mono) (simp_all add: of_int_le_iff [of _ "2 ^ 24", simplified])
  then have "f32 x \<le> 2 powr of_int (j + 1)" by (simp only: e hi)
  also have "\<dots> \<le> 2 powr of_int (k + 1)" using jk by (simp del: of_int_add)
  finally show ?thesis .
qed

lemma f32_mono:
  assumes "0 \<le> x" "x \<le> y"
  shows "f32 x \<le> f32 y"
proof (cases "x = 0")
  case True
  then have "f32 x = 0" by (simp add: f32_def)
  moreover have "0 \<le> f32 y" using assms by (intro f32_nonneg) simp
  ultimately show ?thesis by simp
next
  case False
  with assms have x: "0 < x" and y: "0 < y" by simp_all
  define kx where "kx = max \<lfloor>log 2 x\<rfloor> (- 126)"
  define ky where "ky = max \<lfloor>log 2 y\<rfloor> (- 126)"
  have "log 2 x \<le> log 2 y" using x assms(2) by simp
  then have fl: "\<lfloor>log 2 x\<rfloor> \<le> \<lfloor>log 2 y\<rfloor>" by (rule floor_mono)
  then have kk: "kx \<le> ky" unfolding kx_def ky_def by simp
  show ?thesis
  proof (cases "kx = ky")
    case True
    define u :: real where "u = 2 powr of_int (kx - 23)"
    have u: "0 < u" by (simp add: u_def)
    have ex: "f32 x = of_int (round_even (x / u)) * u"
      using x by (simp add: f32_def Let_def u_def kx_def)
    have ey: "f32 y = of_int (round_even (y / u)) * u"
      using y by (simp add: f32_def Let_def u_def True ky_def)
    have "x / u \<le> y / u" using assms(2) u by (simp add: divide_right_mono)
    then have "round_even (x / u) \<le> round_even (y / u)" by (rule round_even_mono)
    then show ?thesis using u by (simp add: ex ey)
  next
    case False
    with kk have lt: "kx + 1 \<le> ky" by simp
    have normal: "- 126 \<le> ky - 1" "ky = \<lfloor>log 2 y\<rfloor>"
      using lt fl unfolding kx_def ky_def by linarith+
    have bnd_y: "2 powr of_int ky \<le> y" "y < 2 powr of_int (ky + 1)"
      unfolding normal(2) using binade_ex [OF y] by simp_all
    have "x < 2 powr of_int (\<lfloor>log 2 x\<rfloor> + 1)" using binade_ex [OF x] by simp
    also have "\<dots> \<le> 2 powr of_int (kx + 1)" by (simp add: kx_def del: of_int_add)
    finally have "x < 2 powr of_int (kx + 1)" .
    then have "f32 x \<le> 2 powr of_int (kx + 1)"
      using x by (intro f32_upper_pow) (simp_all add: kx_def)
    moreover have "(2::real) powr of_int (kx + 1) \<le> 2 powr of_int ky"
      using lt by (simp del: of_int_add)
    moreover have "2 powr of_int ky \<le> f32 y"
      using f32_binade [OF y bnd_y] normal(1) by simp
    ultimately show ?thesis by linarith
  qed
qed

lemma f32_rel_lower:
  assumes "1 / 2 ^ 126 \<le> x"
  shows "x * (1 - 1 / 2 ^ 24) \<le> f32 x"
proof -
  have x: "0 < x"
  proof -
    have "(0::real) < 1 / 2 ^ 126" by simp
    with assms show ?thesis by linarith
  qed
  define k where "k = \<lfloor>log 2 x\<rfloor>"
  have "2 powr of_int (- 126) \<le> x"
    using assms by (simp add: powr_minus_divide)
  then have "of_int (- 126) \<le> log 2 x"
    using x by (subst le_log_iff) simp_all
  then have k126: "- 126 \<le> k" unfolding k_def by (simp add: le_floor_iff)
  define u :: real where "u = 2 powr of_int (k - 23)"
  have u: "0 < u" by (simp add: u_def)
  have b: "2 powr of_int k \<le> x" "x < 2 powr of_int (k + 1)"
    unfolding k_def using binade_ex [OF x] by simp_all
  have lo: "2 powr of_int k = 2 ^ 23 * u"
    unfolding u_def by (simp add: powr_diff)
  have e: "f32 x = of_int (round_even (x / u)) * u"
    unfolding u_def using x b k126 by (intro f32_at_abs) simp_all
  have "\<bar>of_int (round_even (x / u)) - x / u\<bar> \<le> 1/2" by (rule round_even_error)
  then have "x / u - 1/2 \<le> of_int (round_even (x / u))" by linarith
  then have "(x / u - 1/2) * u \<le> of_int (round_even (x / u)) * u"
    using u by (intro mult_right_mono) simp_all
  then have 1: "x - u / 2 \<le> f32 x" using u by (simp add: e algebra_simps)
  from b(1) have "2 ^ 23 * u \<le> x" by (simp only: lo)
  then have "u / 2 \<le> x / 2 ^ 24" by simp
  with 1 show ?thesis by (simp add: algebra_simps)
qed

lemma pow2_nat: "2 powr real n = (2::real) ^ n"
  by (rule powr_realpow) simp

lemma pow2_neg: "2 powr (- real n) = 1 / (2::real) ^ n"
  by (simp only: powr_minus pow2_nat inverse_eq_divide)

lemma f32_at_ge1:
  assumes "2 ^ n \<le> \<bar>x\<bar>" "\<bar>x\<bar> < 2 ^ Suc n"
  shows "f32 x = of_int (round_even (x * 2 ^ 23 / 2 ^ n)) * 2 ^ n / 2 ^ 23"
proof -
  have i0: "real_of_int (int n) = real n" by simp
  have i1: "real_of_int (int n + 1) = real (Suc n)" by simp
  have i2: "real_of_int (int n - 23) = real n - real 23" by simp
  have p: "2 powr of_int (int n) = (2::real) ^ n"
    by (simp only: i0 pow2_nat)
  have p1: "2 powr of_int (int n + 1) = (2::real) ^ Suc n"
    by (simp only: i1 pow2_nat)
  have u: "2 powr of_int (int n - 23) = (2::real) ^ n / 2 ^ 23"
    by (simp only: i2 powr_diff pow2_nat)
  have "(0::real) < 2 ^ n" by simp
  with assms(1) have "0 < \<bar>x\<bar>" by linarith
  then have x: "x \<noteq> 0" by simp
  have "f32 x = of_int (round_even (x / 2 powr of_int (int n - 23)))
      * 2 powr of_int (int n - 23)"
  proof (rule f32_at_abs)
    show "x \<noteq> 0" by (rule x)
    show "2 powr of_int (int n) \<le> \<bar>x\<bar>" unfolding p by (rule assms(1))
    show "\<bar>x\<bar> < 2 powr of_int (int n + 1)" unfolding p1 by (rule assms(2))
    show "- 126 \<le> int n" by simp
  qed
  then show ?thesis by (simp only: u) simp
qed

lemma f32_at_lt1:
  assumes "1 / 2 ^ n \<le> \<bar>x\<bar>" "\<bar>x\<bar> < 2 / 2 ^ n" "n \<le> 126"
  shows "f32 x = of_int (round_even (x * 2 ^ (n + 23))) / 2 ^ (n + 23)"
proof -
  have i0: "real_of_int (- int n) = - real n" by simp
  have i1: "real_of_int (- int n + 1) = - real n + 1" by simp
  have i2: "real_of_int (- int n - 23) = - real (n + 23)" by simp
  have p: "2 powr of_int (- int n) = 1 / (2::real) ^ n"
    by (simp only: i0 pow2_neg)
  have "2 powr (- real n + 1) = 2 powr (- real n) * (2::real) powr 1"
    by (rule powr_add)
  then have p1: "2 powr of_int (- int n + 1) = 2 / (2::real) ^ n"
    by (simp only: i1 pow2_neg) simp
  have u: "2 powr of_int (- int n - 23) = 1 / (2::real) ^ (n + 23)"
    by (simp only: i2 pow2_neg)
  have "(0::real) < 1 / 2 ^ n" by simp
  with assms(1) have "0 < \<bar>x\<bar>" by linarith
  then have x: "x \<noteq> 0" by simp
  have "f32 x = of_int (round_even (x / 2 powr of_int (- int n - 23)))
      * 2 powr of_int (- int n - 23)"
  proof (rule f32_at_abs)
    show "x \<noteq> 0" by (rule x)
    show "2 powr of_int (- int n) \<le> \<bar>x\<bar>" unfolding p by (rule assms(1))
    show "\<bar>x\<bar> < 2 powr of_int (- int n + 1)" unfolding p1 by (rule assms(2))
    show "- 126 \<le> - int n" using assms(3) by simp
  qed
  then show ?thesis by (simp only: u) simp
qed

lemma f32_130: "f32 130 = 130"
  using f32_at_ge1 [of 7 130] by (simp add: round_even_def)

lemma f32_150: "f32 150 = 150"
  using f32_at_ge1 [of 7 150] by (simp add: round_even_def)

lemma f32_280_tie: "f32 (280 + 1 / 2 ^ 16) = 280"
  using f32_at_ge1 [of 8 "280 + 1 / 2 ^ 16"] by (simp add: round_even_def)

lemma f32_130_up: "f32 (130 / (1 - 1 / 2 ^ 24)) = 130 + 1 / 2 ^ 16"
  using f32_at_ge1 [of 7 "130 / (1 - 1 / 2 ^ 24)"] by (simp add: round_even_def)

lemma f32_of_int_ge1:
  assumes "1 \<le> (m::int)"
  shows "1 \<le> f32 (of_int m)"
proof -
  have "f32 1 \<le> f32 (of_int m)" using assms by (intro f32_mono) simp_all
  moreover have "f32 1 = 1" using f32_at_ge1 [of 0 1] by (simp add: round_even_def)
  ultimately show ?thesis by simp
qed

lemma randomFloat_band:
  assumes "0 < M" "0 \<le> r" "r \<le> (M::int)"
  shows "150 \<le> f32 (150 + f32 (f32 (of_int r) / f32 (f32 (of_int M) / f32 (280 - 150))))
    \<and> f32 (150 + f32 (f32 (of_int r) / f32 (f32 (of_int M) / f32 (280 - 150)))) \<le> 280"
proof -
  define A where "A = f32 (of_int M)"
  define a where "a = f32 (of_int r)"
  define q where "q = f32 (A / 130)"
  define t where "t = f32 (a / q)"
  have A1: "1 \<le> A" unfolding A_def using assms(1) by (intro f32_of_int_ge1) simp
  have a0: "0 \<le> a" unfolding a_def using assms(2) by (intro f32_nonneg) simp
  have aA: "a \<le> A" unfolding a_def A_def using assms(2,3) by (intro f32_mono) simp_all
  have z: "1 / 2 ^ 126 \<le> A / 130"
  proof -
    have "(1::real) / 2 ^ 126 \<le> 1 / 130" by simp
    also have "\<dots> \<le> A / 130" using A1 by simp
    finally show ?thesis .
  qed
  have ql: "(A / 130) * (1 - 1 / 2 ^ 24) \<le> q"
    unfolding q_def using z by (rule f32_rel_lower)
  have qpos: "0 < q"
  proof -
    have "0 < (A / 130) * (1 - 1 / 2 ^ 24)" using A1 by simp
    with ql show ?thesis by linarith
  qed
  have "A \<le> q * (130 / (1 - 1 / 2 ^ 24))"
  proof -
    have "A = (A / 130) * (1 - 1 / 2 ^ 24) * (130 / (1 - 1 / 2 ^ 24))" by simp
    also have "\<dots> \<le> q * (130 / (1 - 1 / 2 ^ 24))"
      using ql by (intro mult_right_mono) simp_all
    finally show ?thesis .
  qed
  then have Aq: "A / q \<le> 130 / (1 - 1 / 2 ^ 24)"
    using qpos by (simp add: pos_divide_le_eq mult.commute)
  have aq0: "0 \<le> a / q" using a0 qpos by simp
  have "a / q \<le> A / q" using aA qpos by (simp add: divide_right_mono)
  with Aq have "a / q \<le> 130 / (1 - 1 / 2 ^ 24)" by linarith
  with aq0 have "t \<le> f32 (130 / (1 - 1 / 2 ^ 24))" unfolding t_def by (rule f32_mono)
  then have tu: "t \<le> 130 + 1 / 2 ^ 16" by (simp only: f32_130_up)
  have t0: "0 \<le> t" unfolding t_def using aq0 by (rule f32_nonneg)
  have "f32 150 \<le> f32 (150 + t)" using t0 by (intro f32_mono) simp_all
  then have lo: "150 \<le> f32 (150 + t)" by (simp only: f32_150)
  have "f32 (150 + t) \<le> f32 (280 + 1 / 2 ^ 16)" using t0 tu by (intro f32_mono) simp_all
  then have hi: "f32 (150 + t) \<le> 280" by (simp only: f32_280_tie)
  have d: "f32 (280 - 150) = 130" using f32_130 by simp
  from lo hi show ?thesis unfolding d t_def q_def a_def A_def by simp
qed


lemma f32_0: "f32 0 = 0"
  by (simp add: f32_def)

lemma f32_495: "f32 495 = 495"
  using f32_at_ge1 [of 8 495] by (simp add: round_even_def)

lemma f32_280: "f32 280 = 280"
  using f32_at_ge1 [of 8 280] by (simp add: round_even_def)

lemma f32_16384: "f32 16384 = 16384"
  using f32_at_ge1 [of 14 16384] by (simp add: round_even_def)

lemma f32_32767: "f32 32767 = 32767"
  using f32_at_ge1 [of 14 32767] by (simp add: round_even_def)

lemma f32_0_3: "f32 (3 / 10) = 5033165 / 16777216"
  using f32_at_lt1 [of 2 "3 / 10"] by (simp add: round_even_def)

lemma f32_449_7: "f32 (4497 / 10) = 7367885 / 16384"
  using f32_at_ge1 [of 8 "4497 / 10"] by (simp add: round_even_def)

lemma f32_sum_449_7: "f32 (7549747405 / 16777216) = 450"
  using f32_at_ge1 [of 8 "7549747405 / 16777216"]
  by (simp add: round_even_def)

lemma f32_sum_300: "f32 (- (5028131635 / 16777216)) = - (4910285 / 16384)"
  using f32_at_ge1 [of 8 "- (5028131635 / 16777216)"]
  by (simp add: round_even_def)

lemma f32_quot_32767: "f32 (32767 / 130) = 16518601 / 65536"
  using f32_at_ge1 [of 7 "32767 / 130"] by (simp add: round_even_def)

lemma f32_quot_16384: "f32 (16384 / (16518601 / 65536)) = 2129985 / 32768"
  using f32_at_ge1 [of 6 "16384 / (16518601 / 65536)"] by (simp add: round_even_def)

lemma f32_quot_full: "f32 (32767 / (16518601 / 65536)) = 130"
  using f32_at_ge1 [of 7 "32767 / (16518601 / 65536)"] by (simp add: round_even_def)

lemma f32_sum_215: "f32 (150 + 2129985 / 32768) = 7045185 / 32768"
  using f32_at_ge1 [of 7 "150 + 2129985 / 32768"] by (simp add: round_even_def)

lemma y_at_16384:
  "f32 (150 + f32 (f32 16384 / f32 (f32 32767 / f32 130))) = 7045185 / 32768"
  by (simp only: f32_130 f32_32767 f32_16384 f32_quot_32767 f32_quot_16384 f32_sum_215)

lemma y_at_0:
  "f32 (150 + f32 (f32 0 / f32 (f32 32767 / f32 130))) = 150"
  by (simp only: f32_130 f32_32767 f32_0 f32_quot_32767 div_0 add_0_right f32_150)

lemma y_at_32767:
  "f32 (150 + f32 (f32 32767 / f32 (f32 32767 / f32 130))) = 280"
proof -
  have "(150::real) + 130 = 280" by simp
  then show ?thesis
    by (simp only: f32_130 f32_32767 f32_quot_32767 f32_quot_full f32_280)
qed

subsection \<open>The cloud tick\<close>

text \<open>
  Claim C6. On an unpaused cloud tick \<open>x\<close> advances by the cloud's speed, a binary32
  addition. If the advanced \<open>x\<close> exceeds 450, the tick ends with \<open>x = -450\<close> and with
  \<open>y\<close> redrawn: one value of \<open>rand()\<close> is consumed and \<open>y\<close> becomes what
  \<open>randomFloat(150, 280)\<close> computes from it in binary32, which lies in [150, 280]
  whatever value in \<open>[0, RAND_MAX]\<close> the call returns. Otherwise \<open>x\<close> keeps the
  advanced value, \<open>y\<close> is kept and no random value is consumed. Speed, size and
  visibility never change. A cloud at \<open>x = 490\<close> with speed 5 ends the tick at
  \<open>x = -450\<close>. (How \<open>rand()\<close> distributes its values is the C library's matter;
  the sum \<open>x + speed\<close> is taken in the finite range of binary32.)
\<close>

theorem cloud_update_wraps:
  assumes "\<not> isPaused p" "0 < RAND_MAX p" "0 \<le> shd (rand_seq p)"
    "shd (rand_seq p) \<le> RAND_MAX p" "\<bar>posX c + speed c\<bar> < 2 ^ 127"
  shows "(if 450 < f32 (posX c + speed c)
          then posX (fst (Cloud_update c p)) = - 450
               \<and> posY (fst (Cloud_update c p))
                   = f32 (150 + f32 (f32 (real_of_int (shd (rand_seq p)))
                                     / f32 (f32 (real_of_int (RAND_MAX p)) / f32 (280 - 150))))
               \<and> 150 \<le> posY (fst (Cloud_update c p))
               \<and> posY (fst (Cloud_update c p)) \<le> 280
               \<and> snd (Cloud_update c p) = p\<lparr>rand_seq := stl (rand_seq p)\<rparr>
          else posX (fst (Cloud_update c p)) = f32 (posX c + speed c)
               \<and> posY (fst (Cloud_update c p)) = posY c
               \<and> snd (Cloud_update c p) = p)
         \<and> speed (fst (Cloud_update c p)) = speed c
         \<and> cloudSize (fst (Cloud_update c p)) = cloudSize c
         \<and> visible (fst (Cloud_update c p)) = visible c
         \<and> (posX c = 490 \<and> speed c = 5 \<longrightarrow> posX (fst (Cloud_update c p)) = - 450)"
proof -
  have band: "150 \<le> f32 (150 + f32 (f32 (real_of_int (shd (rand_seq p)))
                                     / f32 (f32 (real_of_int (RAND_MAX p)) / f32 (280 - 150))))
    \<and> f32 (150 + f32 (f32 (real_of_int (shd (rand_seq p)))
                                     / f32 (f32 (real_of_int (RAND_MAX p)) / f32 (280 - 150))))
        \<le> 280"
    using assms(2-4) by (rule randomFloat_band)
  have ex: "450 < f32 (posX c + speed c)" if "posX c = 490" "speed c = 5"
    using that by (simp add: f32_495)
  show ?thesis
    using assms(1) band ex
    by (simp add: Cloud_update_def randomFloat_def Let_def)
qed

theorem cloud_update_wraps_witness:
  "\<not> isPaused proc0 \<and> 0 < RAND_MAX proc0
   \<and> 0 \<le> shd (rand_seq (proc0\<lparr>rand_seq := 16384 ## sconst 0\<rparr>))
   \<and> shd (rand_seq (proc0\<lparr>rand_seq := 16384 ## sconst 0\<rparr>)) \<le> RAND_MAX proc0
   \<and> \<bar>posX (new_Cloud 490 200 5 25) + speed (new_Cloud 490 200 5 25)\<bar> < 2 ^ 127
   \<and> posX (fst (Cloud_update (new_Cloud 490 200 5 25)
                   (proc0\<lparr>rand_seq := 16384 ## sconst 0\<rparr>))) = - 450
   \<and> posY (fst (Cloud_update (new_Cloud 490 200 5 25)
                   (proc0\<lparr>rand_seq := 16384 ## sconst 0\<rparr>))) = 7045185 / 32768
   \<and> snd (Cloud_update (new_Cloud 490 200 5 25) (proc0\<lparr>rand_seq := 16384 ## sconst 0\<rparr>))
       = proc0\<lparr>rand_seq := sconst 0\<rparr>
   \<and> posY (fst (Cloud_update (new_Cloud 490 200 5 25) (proc0\<lparr>rand_seq := sconst 0\<rparr>)))
       = 150
   \<and> posY (fst (Cloud_update (new_Cloud 490 200 5 25) (proc0\<lparr>rand_seq := sconst 32767\<rparr>)))
       = 280
   \<and> posX (fst (Cloud_update (new_Cloud (f32 449.7) 200 (f32 0.3) 25) proc0)) = 450
   \<and> posY (fst (Cloud_update (new_Cloud (f32 449.7) 200 (f32 0.3) 25) proc0)) = 200
   \<and> snd (Cloud_update (new_Cloud (f32 449.7) 200 (f32 0.3) 25) proc0) = proc0
   \<and> posX (fst (Cloud_update (new_Cloud (- 300) 220 (f32 0.3) 25) proc0))
       = - 299.70001220703125"
proof -
  let ?pa = "proc0\<lparr>rand_seq := 16384 ## sconst 0\<rparr>"
  let ?pz = "proc0\<lparr>rand_seq := sconst 0\<rparr>"
  let ?px = "proc0\<lparr>rand_seq := sconst 32767\<rparr>"
  have 1: "posX (fst (Cloud_update (new_Cloud 490 200 5 25) ?pa)) = - 450
     \<and> posY (fst (Cloud_update (new_Cloud 490 200 5 25) ?pa)) = 7045185 / 32768
     \<and> snd (Cloud_update (new_Cloud 490 200 5 25) ?pa) = proc0\<lparr>rand_seq := sconst 0\<rparr>"
    using cloud_update_wraps [of ?pa "new_Cloud 490 200 5 25"]
    by (simp add: proc0_def new_Cloud_def f32_495 y_at_16384)
  have 2: "posY (fst (Cloud_update (new_Cloud 490 200 5 25) ?pz)) = 150"
    using cloud_update_wraps [of ?pz "new_Cloud 490 200 5 25"]
    by (simp add: proc0_def new_Cloud_def f32_495 y_at_0)
  have 3: "posY (fst (Cloud_update (new_Cloud 490 200 5 25) ?px)) = 280"
    using cloud_update_wraps [of ?px "new_Cloud 490 200 5 25"]
    by (simp add: proc0_def new_Cloud_def f32_495 y_at_32767)
  have 4: "posX (fst (Cloud_update (new_Cloud (f32 449.7) 200 (f32 0.3) 25) proc0)) = 450
     \<and> posY (fst (Cloud_update (new_Cloud (f32 449.7) 200 (f32 0.3) 25) proc0)) = 200
     \<and> snd (Cloud_update (new_Cloud (f32 449.7) 200 (f32 0.3) 25) proc0) = proc0"
    using cloud_update_wraps [of proc0 "new_Cloud (f32 449.7) 200 (f32 0.3) 25"]
    by (simp add: proc0_def new_Cloud_def f32_0_3 f32_449_7 f32_sum_449_7)
  have 5: "posX (fst (Cloud_update (new_Cloud (- 300) 220 (f32 0.3) 25) proc0))
       = - 299.70001220703125"
    using cloud_update_wraps [of proc0 "new_Cloud (- 300) 220 (f32 0.3) 25"]
    by (simp add: proc0_def new_Cloud_def f32_0_3 f32_sum_300)
  have 0: "\<not> isPaused proc0 \<and> 0 < RAND_MAX proc0
   \<and> 0 \<le> shd (rand_seq ?pa) \<and> shd (rand_seq ?pa) \<le> RAND_MAX proc0
   \<and> \<bar>posX (new_Cloud 490 200 5 25) + speed (new_Cloud 490 200 5 25)\<bar> < 2 ^ 127"
    by (simp add: proc0_def new_Cloud_def)
  from 0 1 2 3 4 5 show ?thesis by blast
qed

subsection \<open>The celestial wrap\<close>

text \<open>
  Claim C10. When an unpaused tick with celestial animation enabled raises the
  celestial body's \<open>angle\<close> to 360 or more, the angle becomes exactly 0: the excess
  over 360 is dropped. \<open>Windmill::update\<close> differs: when the raised blade angle is 360
  or more it subtracts 360 and keeps the excess.
\<close>

theorem celestial_wrap_resets_to_zero:
  "(\<not> isPaused p \<and> animateCelestial p \<and> angle b + 0.3 \<ge> 360
      \<longrightarrow> angle (fst (CelestialBody_update b p)) = 0)
   \<and> (\<not> isPaused p \<and> isRotating m \<and> bladeAngle m + rotationSpeed m \<ge> 360
      \<longrightarrow> bladeAngle (fst (Windmill_update m p)) = bladeAngle m + rotationSpeed m - 360)"
  by (simp add: CelestialBody_update_def Windmill_update_def Let_def)

theorem celestial_wrap_resets_to_zero_witness:
  "\<not> isPaused proc0 \<and> animateCelestial proc0
   \<and> angle ((new_CelestialBody 350 250 30 \<lparr>red = 1, green = 0.95, blue = 0\<rparr>)
              \<lparr>angle := 359.9\<rparr>) + 0.3 \<ge> 360
   \<and> angle (fst (CelestialBody_update
        ((new_CelestialBody 350 250 30 \<lparr>red = 1, green = 0.95, blue = 0\<rparr>)\<lparr>angle := 359.9\<rparr>)
        proc0)) = 0
   \<and> isRotating ((fst (new_Windmill 0 0 30 120 80 4 proc0))\<lparr>bladeAngle := 359\<rparr>)
   \<and> bladeAngle (fst (Windmill_update
        ((fst (new_Windmill 0 0 30 120 80 4 proc0))\<lparr>bladeAngle := 359\<rparr>) proc0)) = 1"
  using celestial_wrap_resets_to_zero [of proc0
      "(new_CelestialBody 350 250 30 \<lparr>red = 1, green = 0.95, blue = 0\<rparr>)\<lparr>angle := 359.9\<rparr>"
      "(fst (new_Windmill 0 0 30 120 80 4 proc0))\<lparr>bladeAngle := 359\<rparr>"]
  by (simp add: proc0_def new_CelestialBody_def new_Windmill_def Let_def)

subsection \<open>Keyboard\<close>

lemma keyboard_digit_out_of_range:
  assumes "scene w = Some sc"
    and "int (length (windmills sc)) < of_char key - of_char CHR ''0''"
    and "key = CHR ''1'' \<or> key = CHR ''2'' \<or> key = CHR ''3'' \<or> key = CHR ''4''
         \<or> key = CHR ''5''"
  shows "keyboard key w = Some (w\<lparr>redisplay := True\<rparr>)"
proof -
  have nq: "\<not> (key = CHR ''q'' \<or> key = CHR ''Q'' \<or> key = CHR 0x1B)"
    using assms(3) by auto
  show ?thesis
    unfolding keyboard_def using assms(1,2)
    by (simp only: nq assms(3) if_True if_False Let_def option.case) simp
qed

lemma keyboard_unbound_key:
  assumes "key = CHR ''0'' \<or> key = CHR ''6'' \<or> key = CHR ''7'' \<or> key = CHR ''8''
           \<or> key = CHR ''9''"
  shows "keyboard key w = Some (w\<lparr>redisplay := True\<rparr>)"
  using assms by (elim disjE) (simp_all add: keyboard_def)

text \<open>
  Claim C7. A digit key whose 1-based index exceeds the number of windmills in the
  scene changes nothing: the selected index, the mode flags, the counter, the heap, the
  scene and the console stay as they are, and the handler returns normally. Like every
  key event that does not quit, it ends with \<open>glutPostRedisplay()\<close>, the request for a
  redraw.
\<close>

theorem select_out_of_range_noop:
  "key \<in> set ''123456789'' \<Longrightarrow> scene w = Some sc
   \<Longrightarrow> int (length (windmills sc)) < of_char key - of_char CHR ''0''
   \<Longrightarrow> keyboard key w = Some (w\<lparr>redisplay := True\<rparr>)"
  using keyboard_digit_out_of_range [of w sc key] keyboard_unbound_key [of key w]
  by auto

lemmas world0_simps = world0_def initScene_def start_world_def new_Windmill_def
  new_object_def new_Scene_def addWindmill_def addCloud_def setCelestialBody_def
  new_Cloud_def new_CelestialBody_def Let_def

theorem select_out_of_range_noop_witness:
  "CHR ''5'' \<in> set ''123456789''
   \<and> scene world0 = Some \<lparr>objects = [0, 1, 2, 3, 4, 5, 6], windmills = [0, 1, 2],
                           clouds = [3, 4, 5], celestialBody = Some 6\<rparr>
   \<and> int (length [0::nat, 1, 2]) < of_char CHR ''5'' - of_char CHR ''0''
   \<and> keyboard CHR ''5'' world0 = Some (world0\<lparr>redisplay := True\<rparr>)
   \<and> map_option selectedWindmill (keyboard CHR ''5'' world0) = Some 1"
proof -
  have sc: "scene world0 = Some \<lparr>objects = [0, 1, 2, 3, 4, 5, 6], windmills = [0, 1, 2],
                                 clouds = [3, 4, 5], celestialBody = Some 6\<rparr>"
    by (simp add: world0_simps)
  have sel: "selectedWindmill world0 = 1"
    by (simp add: world0_simps)
  show ?thesis
    using sc sel select_out_of_range_noop [of "CHR ''5''" world0, OF _ sc]
    by simp
qed


subsection \<open>Drawing changes nothing but the draw surface\<close>

lemma Cloud_draw_frame: "Cloud_draw c p = (c, p\<lparr>gl := gl (snd (Cloud_draw c p))\<rparr>)"
  by (simp add: Cloud_draw_def drawCircle_def emit_def Let_def)

lemma CelestialBody_draw_frame:
  "CelestialBody_draw b p = (b, p\<lparr>gl := gl (snd (CelestialBody_draw b p))\<rparr>)"
  by (simp add: CelestialBody_draw_def drawCircle_def emit_def Let_def)

lemma Windmill_draw_frame:
  "Windmill_draw m p = (m, p\<lparr>gl := gl (snd (Windmill_draw m p))\<rparr>)"
  by (simp add: Windmill_draw_def drawTower_def drawBlades_def drawHub_def
      drawSelectionIndicator_def drawCircle_def emit_def Let_def)

lemma Drawable_draw_frame:
  "Drawable_draw obj p = (obj, p\<lparr>gl := gl (snd (Drawable_draw obj p))\<rparr>)"
proof (cases obj)
  case (ACloud c)
  define g where "g = gl (snd (Cloud_draw c p))"
  have "Cloud_draw c p = (c, p\<lparr>gl := g\<rparr>)"
    unfolding g_def by (rule Cloud_draw_frame)
  with ACloud show ?thesis by simp
next
  case (ACelestialBody b)
  define g where "g = gl (snd (CelestialBody_draw b p))"
  have "CelestialBody_draw b p = (b, p\<lparr>gl := g\<rparr>)"
    unfolding g_def by (rule CelestialBody_draw_frame)
  with ACelestialBody show ?thesis by simp
next
  case (AWindmill m)
  define g where "g = gl (snd (Windmill_draw m p))"
  have "Windmill_draw m p = (m, p\<lparr>gl := g\<rparr>)"
    unfolding g_def by (rule Windmill_draw_frame)
  with AWindmill show ?thesis by simp
qed

lemma draw_each_frame: "draw_each as w = Some w' \<Longrightarrow> w' = w\<lparr>gl := gl w'\<rparr>"
proof (induction as arbitrary: w)
  case Nil
  then show ?case by simp
next
  case (Cons a as)
  from Cons.prems obtain obj where obj: "heap w a = Some obj"
    by (auto split: option.splits)
  define g where "g = gl (snd (Drawable_draw obj w))"
  have d: "Drawable_draw obj w = (obj, w\<lparr>gl := g\<rparr>)"
    unfolding g_def by (rule Drawable_draw_frame)
  have "(heap w)(a \<mapsto> obj) = heap w" using obj by (rule map_upd_triv)
  then have "draw_each as (w\<lparr>gl := g\<rparr>) = Some w'"
    using Cons.prems obj d by simp
  then have "w' = w\<lparr>gl := g\<rparr>\<lparr>gl := gl w'\<rparr>" by (rule Cons.IH)
  then show ?case by simp
qed

lemma draw_each_total:
  "\<forall>x\<in>set as. heap w x \<noteq> None \<Longrightarrow> draw_each as w \<noteq> None"
proof (induction as arbitrary: w)
  case Nil
  then show ?case by simp
next
  case (Cons a as)
  then obtain obj where obj: "heap w a = Some obj" by auto
  define g where "g = gl (snd (Drawable_draw obj w))"
  have d: "Drawable_draw obj w = (obj, w\<lparr>gl := g\<rparr>)"
    unfolding g_def by (rule Drawable_draw_frame)
  have "\<forall>x\<in>set as. heap (w\<lparr>gl := g, heap := (heap w)(a \<mapsto> obj)\<rparr>) x \<noteq> None"
    using Cons.prems by simp
  then have "draw_each as (w\<lparr>gl := g, heap := (heap w)(a \<mapsto> obj)\<rparr>) \<noteq> None"
    by (rule Cons.IH)
  then show ?case using obj d by simp
qed

lemma drawBackground_frame: "drawBackground p = p\<lparr>gl := gl (drawBackground p)\<rparr>"
  by (simp add: drawBackground_def emit_def Let_def)

lemma drawHUD_frame: "drawHUD w = Some w' \<Longrightarrow> w' = w\<lparr>gl := gl w'\<rparr>"
  by (auto simp add: drawHUD_def emit_def Let_def split: option.splits if_splits object.splits)

lemma display_frame:
  assumes "display w = Some w'"
  shows "w' = w\<lparr>gl := gl w'\<rparr>"
proof -
  define g1 where "g1 = gl (drawBackground w)"
  have w1: "drawBackground w = w\<lparr>gl := g1\<rparr>"
    unfolding g1_def by (rule drawBackground_frame)
  from assms obtain w2 w3 where
    w2: "(case scene w of None \<Rightarrow> Some (w\<lparr>gl := g1\<rparr>) | Some sc \<Rightarrow> drawAll sc (w\<lparr>gl := g1\<rparr>)) = Some w2"
    and w3: "drawHUD w2 = Some w3" and w': "w' = emit [GlutSwapBuffers] w3"
    by (auto simp add: display_def Let_def w1 split: option.splits)
  define g2 where "g2 = gl w2"
  define g3 where "g3 = gl w3"
  have "w2 = w\<lparr>gl := g1\<rparr>\<lparr>gl := g2\<rparr>"
  proof (cases "scene w")
    case None
    with w2 show ?thesis by (simp add: g2_def)
  next
    case (Some sc)
    with w2 have "draw_each (objects sc) (w\<lparr>gl := g1\<rparr>) = Some w2" by (simp add: drawAll_def)
    then show ?thesis unfolding g2_def by (rule draw_each_frame)
  qed
  then have e2: "w2 = w\<lparr>gl := g2\<rparr>" by simp
  have "w3 = w2\<lparr>gl := g3\<rparr>" unfolding g3_def using w3 by (rule drawHUD_frame)
  with e2 have "w3 = w\<lparr>gl := g3\<rparr>" by simp
  then show ?thesis unfolding w' emit_def by simp
qed


subsection \<open>The invariant of the running program\<close>

lemma scene_inv_start: "scene_inv (initScene (start_world rmax rs))"
  unfolding scene_inv_def
  apply (rule exI [where x = "\<lparr>objects = [0, 1, 2, 3, 4, 5, 6], windmills = [0, 1, 2],
          clouds = [3, 4, 5], celestialBody = Some 6\<rparr>"])
  apply (simp add: initScene_def start_world_def new_Windmill_def
  new_object_def new_Scene_def addWindmill_def addCloud_def setCelestialBody_def
  new_Cloud_def new_CelestialBody_def Let_def windmill_at_def ident_at_def upt_rec)
  apply auto
  done

lemma scene_inv_cong:
  assumes "scene_inv w" "scene w' = scene w" "next_addr w' = next_addr w"
    "windmillCount w' = windmillCount w" "selectedWindmill w' = selectedWindmill w"
    "dom (heap w') = dom (heap w)" "ident_at w' = ident_at w"
  shows "scene_inv w'"
proof -
  have "windmill_at w' = windmill_at w"
    using assms(7) by (simp add: windmill_at_def fun_eq_iff)
  with assms show ?thesis by (simp add: scene_inv_def)
qed


lemma Drawable_update_frame:
  "snd (Drawable_update obj w) = w\<lparr>rand_seq := rand_seq (snd (Drawable_update obj w))\<rparr>
   \<and> object_ident (fst (Drawable_update obj w)) = object_ident obj"
  by (cases obj)
    (simp_all add: Cloud_update_def CelestialBody_update_def Windmill_update_def
      randomFloat_def Let_def case_prod_beta)

lemma update_each_frame:
  "update_each as w = Some w' \<Longrightarrow>
     scene w' = scene w \<and> next_addr w' = next_addr w \<and> windmillCount w' = windmillCount w
     \<and> selectedWindmill w' = selectedWindmill w \<and> exited w' = exited w
     \<and> dom (heap w') = dom (heap w) \<and> ident_at w' = ident_at w"
proof (induction as arbitrary: w)
  case Nil
  then show ?case by simp
next
  case (Cons a as)
  from Cons.prems obtain obj where obj: "heap w a = Some obj"
    by (auto split: option.splits)
  define obj' where "obj' = fst (Drawable_update obj w)"
  define rs where "rs = rand_seq (snd (Drawable_update obj w))"
  have "snd (Drawable_update obj w) = w\<lparr>rand_seq := rs\<rparr>"
    and oi: "object_ident obj' = object_ident obj"
    unfolding rs_def obj'_def using Drawable_update_frame [of obj w] by simp_all
  then have d: "Drawable_update obj w = (obj', w\<lparr>rand_seq := rs\<rparr>)"
    unfolding obj'_def by (simp add: prod_eq_iff)
  define w1 where "w1 = w\<lparr>rand_seq := rs, heap := (heap w)(a \<mapsto> obj')\<rparr>"
  have "update_each as w1 = Some w'"
    using Cons.prems obj d by (simp add: w1_def)
  then have IH: "scene w' = scene w1 \<and> next_addr w' = next_addr w1
     \<and> windmillCount w' = windmillCount w1
     \<and> selectedWindmill w' = selectedWindmill w1 \<and> exited w' = exited w1
     \<and> dom (heap w') = dom (heap w1) \<and> ident_at w' = ident_at w1"
    by (rule Cons.IH)
  have "dom (heap w1) = dom (heap w)"
    using obj by (auto simp add: w1_def)
  moreover have "ident_at w1 = ident_at w"
    using obj oi by (auto simp add: w1_def ident_at_def fun_eq_iff)
  ultimately show ?case using IH by (simp add: w1_def)
qed

lemma timer_inv:
  assumes "scene_inv w" "timer w = Some w'"
  shows "scene_inv w' \<and> exited w' = exited w"
proof -
  from assms(1) obtain sc where sc: "scene w = Some sc" by (auto simp add: scene_inv_def)
  from assms(2) sc obtain w1 where u: "update_each (objects sc) w = Some w1"
    and w': "w' = w1\<lparr>redisplay := True\<rparr>"
    by (auto simp add: timer_def updateAll_def split: option.splits)
  note f = update_each_frame [OF u]
  have "scene_inv w'"
    using assms(1)
  proof (rule scene_inv_cong)
    show "ident_at w' = ident_at w" using f by (simp add: w' ident_at_def fun_eq_iff)
  qed (use f in \<open>simp_all add: w'\<close>)
  then show ?thesis using f by (simp add: w')
qed


lemma same_heap_inv:
  assumes "scene_inv w" "scene w' = scene w" "next_addr w' = next_addr w"
    "windmillCount w' = windmillCount w" "selectedWindmill w' = selectedWindmill w"
    "heap w' = heap w"
  shows "scene_inv w'"
proof -
  have "ident_at w' = ident_at w"
    using assms(6) by (simp add: ident_at_def fun_eq_iff)
  moreover have "dom (heap w') = dom (heap w)"
    using assms(6) by simp
  ultimately show ?thesis
    using assms(1-5) by (intro scene_inv_cong [of w w']) simp_all
qed

lemma frame_inv:
  assumes "scene_inv w" "w' = w\<lparr>gl := g\<rparr>"
  shows "scene_inv w'"
  using assms(1)
  by (rule same_heap_inv) (simp_all add: assms(2))

lemma same_scene_inv:
  assumes "scene_inv w" "same_scene w w'" "selectedWindmill w' = selectedWindmill w"
  shows "scene_inv w'"
  using assms(1)
  by (rule scene_inv_cong) (use assms(2,3) in \<open>simp_all add: same_scene_def\<close>)

lemma keyboard_other:
  assumes "key \<notin> set ''qQ12345+=-_dDnNcCwWsSpPrR''" "key \<noteq> CHR 0x1B"
  shows "keyboard key w = Some (w\<lparr>redisplay := True\<rparr>)"
  using assms by (simp add: keyboard_def)

lemma keyboard_other_same:
  assumes "key \<notin> set ''qQ12345+=-_dDnNcCwWsSpPrR''" "key \<noteq> CHR 0x1B"
    "keyboard key w = Some w'"
  shows "same_scene w w' \<and> selectedWindmill w' = selectedWindmill w"
  using keyboard_other [OF assms(1,2), of w] assms(3)
  by (auto simp add: same_scene_def ident_at_def fun_eq_iff)

lemma keyboard_flags_same:
  assumes "key \<in> set ''dDnNsSpP''" "keyboard key w = Some w'"
  shows "same_scene w w' \<and> selectedWindmill w' = selectedWindmill w"
  using assms
  by (simp, elim disjE)
    (auto simp add: keyboard_def Let_def same_scene_def ident_at_def fun_eq_iff)

lemma keyboard_digit_same:
  assumes "key \<in> set ''12345''" "scene w = Some sc" "keyboard key w = Some w'"
  shows "same_scene w w' \<and> (selectedWindmill w' = selectedWindmill w
     \<or> (1 \<le> selectedWindmill w' \<and> selectedWindmill w' \<le> int (length (windmills sc))))"
proof -
  define s where "s = (of_char key - of_char CHR ''0'' :: int)"
  have k: "keyboard key w =
    (if s > 0 \<and> s \<le> int (length (windmills sc)) then
       Some (w\<lparr>selectedWindmill := s,
          cout := cout w @ [Str ''Selected Windmill #'', IntV s, Endl], redisplay := True\<rparr>)
     else Some (w\<lparr>redisplay := True\<rparr>))"
    using assms(1,2) unfolding s_def by (simp, elim disjE) (simp_all add: keyboard_def Let_def)
  show ?thesis
    using k assms(3)
    by (auto simp add: same_scene_def ident_at_def fun_eq_iff split: if_splits)
qed

lemma keyboard_speed_same:
  assumes "key \<in> set ''+=-_''" "keyboard key w = Some w'"
  shows "same_scene w w' \<and> selectedWindmill w' = selectedWindmill w"
proof -
  have i: "ident (increaseSpeed m) = ident m" and d: "ident (decreaseSpeed m) = ident m" for m
    by (simp_all add: increaseSpeed_def decreaseSpeed_def Let_def)
  show ?thesis
    using assms
    by (simp, elim disjE)
      (auto simp add: keyboard_def Let_def same_scene_def ident_at_def fun_eq_iff i d
         split: if_splits option.splits object.splits)
qed

lemma delete_object_result:
  assumes "heap w a = Some obj"
  shows "delete_object a w =
     Some (w\<lparr>windmillCount := windmillCount w - (if windmill_at w a then 1 else 0),
             heap := (heap w)(a := None)\<rparr>)"
  using assms
  by (cases obj)
    (simp_all add: delete_object_def delete_Windmill_def windmill_at_def ident_at_def)

lemma delete_each_result:
  assumes "distinct as" "\<forall>x\<in>set as. heap w x \<noteq> None"
  shows "delete_each as w =
     Some (w\<lparr>windmillCount := windmillCount w - int (length (filter (windmill_at w) as)),
             heap := (\<lambda>x. if x \<in> set as then None else heap w x)\<rparr>)"
  using assms
proof (induction as arbitrary: w)
  case Nil
  then show ?case by simp
next
  case (Cons a as)
  from Cons.prems obtain obj where obj: "heap w a = Some obj" by auto
  define w1 where "w1 = w\<lparr>windmillCount := windmillCount w - (if windmill_at w a then 1 else 0),
             heap := (heap w)(a := None)\<rparr>"
  have d: "delete_object a w = Some w1"
    unfolding w1_def using obj by (rule delete_object_result)
  have notin: "a \<notin> set as" and dist: "distinct as" using Cons.prems(1) by simp_all
  have alloc: "\<forall>x\<in>set as. heap w1 x \<noteq> None"
    using Cons.prems(2) notin by (auto simp add: w1_def)
  have same: "filter (windmill_at w1) as = filter (windmill_at w) as"
    using notin by (intro filter_cong) (auto simp add: w1_def windmill_at_def ident_at_def)
  have "delete_each as w1 =
     Some (w1\<lparr>windmillCount := windmillCount w1 - int (length (filter (windmill_at w1) as)),
             heap := (\<lambda>x. if x \<in> set as then None else heap w1 x)\<rparr>)"
    using dist alloc by (rule Cons.IH)
  moreover have "(\<lambda>x. if x \<in> set as then None else heap w1 x)
      = (\<lambda>x. if x \<in> set (a # as) then None else heap w x)"
    by (auto simp add: w1_def)
  moreover have "windmillCount w1 - int (length (filter (windmill_at w1) as))
      = windmillCount w - int (length (filter (windmill_at w) (a # as)))"
    by (simp only: same) (simp add: w1_def)
  ultimately show ?case using d by (simp add: w1_def)
qed

lemma scene_inv_add:
  assumes inv: "scene_inv w" and sc: "scene w = Some sc"
    and sc': "scene w' = Some sc'"
    and objs: "objects sc' = objects sc @ [next_addr w]"
    and wms: "windmills sc' = windmills sc @ (if i = None then [] else [next_addr w])"
    and nxt: "next_addr w' = Suc (next_addr w)"
    and dm: "dom (heap w') = insert (next_addr w) (dom (heap w))"
    and ids: "ident_at w' = (ident_at w)(next_addr w := i)"
    and cnt: "windmillCount w' = windmillCount w + (if i = None then 0 else 1)"
    and i: "i = None \<or> i = Some (windmillCount w + 1)"
    and sel: "selectedWindmill w' = selectedWindmill w"
  shows "scene_inv w'"
proof -
  let ?n = "next_addr w"
  from inv sc have d: "distinct (objects sc)"
    and lt: "\<forall>a\<in>set (objects sc). a < ?n"
    and dom: "dom (heap w) = set (objects sc)"
    and ws: "windmills sc = filter (windmill_at w) (objects sc)"
    and idl: "map (ident_at w) (windmills sc)
            = map (\<lambda>k. Some (int k)) [1..<Suc (length (windmills sc))]"
    and c: "windmillCount w = int (length (windmills sc))"
    and s: "selectedWindmill w = 1
            \<or> (1 \<le> selectedWindmill w \<and> selectedWindmill w \<le> int (length (windmills sc)))"
    by (auto simp add: scene_inv_def)
  have fresh: "?n \<notin> set (objects sc)" using lt by auto
  have sub: "set (windmills sc) \<subseteq> set (objects sc)" unfolding ws by auto
  have old: "ident_at w' a = ident_at w a" if "a \<in> set (objects sc)" for a
    using that fresh by (auto simp add: ids)
  have new: "ident_at w' ?n = i" by (simp add: ids)
  have f1: "filter (windmill_at w') (objects sc) = filter (windmill_at w) (objects sc)"
    by (intro filter_cong) (simp_all add: windmill_at_def old)
  have m1: "map (ident_at w') (windmills sc) = map (ident_at w) (windmills sc)"
    using sub by (intro map_cong) (auto simp add: old)
  have 1: "distinct (objects sc')" using d fresh by (simp add: objs)
  have 2: "\<forall>a\<in>set (objects sc'). a < next_addr w'" using lt by (auto simp add: objs nxt)
  have 3: "dom (heap w') = set (objects sc')" by (simp add: dm dom objs)
  have 4: "windmills sc' = filter (windmill_at w') (objects sc')"
    by (simp add: objs wms f1 ws [symmetric] windmill_at_def new)
  have 5: "map (ident_at w') (windmills sc')
            = map (\<lambda>k. Some (int k)) [1..<Suc (length (windmills sc'))]"
  proof (cases "i = None")
    case True
    then show ?thesis by (simp add: wms m1 idl)
  next
    case False
    with i have "i = Some (int (Suc (length (windmills sc))))" by (simp add: c)
    with False show ?thesis by (simp add: wms m1 idl new)
  qed
  have 6: "windmillCount w' = int (length (windmills sc'))"
    by (simp add: cnt c wms)
  have 7: "selectedWindmill w' = 1
            \<or> (1 \<le> selectedWindmill w' \<and> selectedWindmill w' \<le> int (length (windmills sc')))"
    using s by (auto simp add: sel wms)
  from sc' 1 2 3 4 5 6 7 show ?thesis unfolding scene_inv_def by blast
qed

lemma inv_key_c:
  assumes "scene_inv w" "key \<in> set ''cC''" "keyboard key w = Some w'"
  shows "scene_inv w' \<and> exited w' = exited w"
proof -
  from assms(1) obtain sc where sc: "scene w = Some sc" by (auto simp add: scene_inv_def)
  have k: "scene w' = Some (addCloud (next_addr w) sc)
     \<and> next_addr w' = Suc (next_addr w)
     \<and> dom (heap w') = insert (next_addr w) (dom (heap w))
     \<and> ident_at w' = (ident_at w)(next_addr w := None)
     \<and> windmillCount w' = windmillCount w
     \<and> selectedWindmill w' = selectedWindmill w \<and> exited w' = exited w"
    using assms(2,3) sc
    by (simp, elim disjE)
      (auto simp add: keyboard_def randomFloat_def new_Cloud_def new_object_def Let_def
        ident_at_def fun_eq_iff)
  have "scene_inv w'"
    using assms(1) sc
    by (rule scene_inv_add [where i = None and sc' = "addCloud (next_addr w) sc"])
      (use k in \<open>simp_all add: addCloud_def\<close>)
  with k show ?thesis by simp
qed

lemma inv_key_w:
  assumes "scene_inv w" "key \<in> set ''wW''" "keyboard key w = Some w'"
  shows "scene_inv w' \<and> exited w' = exited w"
proof -
  from assms(1) obtain sc where sc: "scene w = Some sc" by (auto simp add: scene_inv_def)
  have k: "scene w' = Some (addWindmill (next_addr w) sc)
     \<and> next_addr w' = Suc (next_addr w)
     \<and> dom (heap w') = insert (next_addr w) (dom (heap w))
     \<and> ident_at w' = (ident_at w)(next_addr w := Some (windmillCount w + 1))
     \<and> windmillCount w' = windmillCount w + 1
     \<and> selectedWindmill w' = selectedWindmill w \<and> exited w' = exited w"
    using assms(2,3) sc
    by (simp, elim disjE)
      (auto simp add: keyboard_def randomFloat_def new_Windmill_def new_object_def Let_def
        ident_at_def fun_eq_iff)
  have "scene_inv w'"
    using assms(1) sc
    by (rule scene_inv_add [where i = "Some (windmillCount w + 1)"
          and sc' = "addWindmill (next_addr w) sc"])
      (use k in \<open>simp_all add: addWindmill_def\<close>)
  with k show ?thesis by simp
qed

lemma inv_key_r:
  assumes "scene_inv w" "key \<in> set ''rR''" "keyboard key w = Some w'"
  shows "scene_inv w' \<and> exited w' = exited w"
proof -
  from assms(1) obtain sc where sc: "scene w = Some sc"
    and d: "distinct (objects sc)"
    and dom: "dom (heap w) = set (objects sc)"
    and ws: "windmills sc = filter (windmill_at w) (objects sc)"
    and c: "windmillCount w = int (length (windmills sc))"
    by (auto simp add: scene_inv_def)
  define w0 where "w0 = w\<lparr>cout := cout w @ [Str ''Resetting simulation...'', Endl]\<rparr>"
  have wa: "windmill_at w0 = windmill_at w"
    by (simp add: w0_def windmill_at_def ident_at_def fun_eq_iff)
  have alloc: "\<forall>x\<in>set (objects sc). heap w0 x \<noteq> None"
    using dom by (auto simp add: w0_def)
  have del: "delete_each (objects sc) w0 =
     Some (w0\<lparr>windmillCount := windmillCount w0 - int (length (filter (windmill_at w0) (objects sc))),
             heap := (\<lambda>x. if x \<in> set (objects sc) then None else heap w0 x)\<rparr>)"
    using d alloc by (rule delete_each_result)
  have h: "(\<lambda>x. if x \<in> set (objects sc) then None else heap w0 x) = Map.empty"
    using dom by (auto simp add: w0_def fun_eq_iff)
  have n: "windmillCount w0 - int (length (filter (windmill_at w0) (objects sc))) = 0"
    by (simp only: wa ws [symmetric]) (simp add: w0_def c)
  have k: "keyboard key w =
    Some (w0\<lparr>windmillCount := 0, heap := Map.empty, scene := Some new_Scene,
             selectedWindmill := 1, redisplay := True\<rparr>)"
    using assms(2) sc del unfolding h n
    by (simp, elim disjE) (simp_all add: keyboard_def clear_def Let_def w0_def new_Scene_def)
  have "w' = w0\<lparr>windmillCount := 0, heap := Map.empty, scene := Some new_Scene,
             selectedWindmill := 1, redisplay := True\<rparr>"
    using k assms(3) by simp
  then show ?thesis
    by (simp add: scene_inv_def new_Scene_def w0_def)
qed

lemma key_q_exits:
  assumes "key \<in> set ''qQ'' \<or> key = CHR 0x1B" "keyboard key w = Some w'"
  shows "exited w'"
  using assms
  by (simp, elim disjE) (auto simp add: keyboard_def Let_def split: option.splits)

lemma key_cases:
  fixes key :: char
  obtains (quit) "key \<in> set ''qQ'' \<or> key = CHR 0x1B"
    | (digit) "key \<in> set ''12345''"
    | (speed) "key \<in> set ''+=-_''"
    | (flags) "key \<in> set ''dDnNsSpP''"
    | (cloud) "key \<in> set ''cC''"
    | (windmill) "key \<in> set ''wW''"
    | (reset) "key \<in> set ''rR''"
    | (other) "key \<notin> set ''qQ12345+=-_dDnNcCwWsSpPrR''" "key \<noteq> CHR 0x1B"
  by auto

lemma keyboard_inv:
  assumes "scene_inv w" "keyboard key w = Some w'"
  shows "exited w' \<or> scene_inv w'"
proof (cases key rule: key_cases)
  case quit
  then have "exited w'" using assms(2) by (rule key_q_exits)
  then show ?thesis ..
next
  case digit
  from assms(1) obtain sc where sc: "scene w = Some sc"
    and s: "selectedWindmill w = 1
          \<or> (1 \<le> selectedWindmill w \<and> selectedWindmill w \<le> int (length (windmills sc)))"
    by (auto simp add: scene_inv_def)
  from keyboard_digit_same [OF digit sc assms(2)]
  have ss: "same_scene w w'"
    and sel: "selectedWindmill w' = selectedWindmill w
   \<or> (1 \<le> selectedWindmill w' \<and> selectedWindmill w' \<le> int (length (windmills sc)))"
    by simp_all
  have wa: "windmill_at w' = windmill_at w"
    using ss by (simp add: same_scene_def windmill_at_def fun_eq_iff)
  have "scene_inv w'"
    using assms(1) sc ss sel s unfolding scene_inv_def same_scene_def wa
    by auto
  then show ?thesis ..
next
  case speed
  from keyboard_speed_same [OF speed assms(2)]
  have "same_scene w w'" "selectedWindmill w' = selectedWindmill w" by simp_all
  with assms(1) have "scene_inv w'" by (rule same_scene_inv)
  then show ?thesis ..
next
  case flags
  from keyboard_flags_same [OF flags assms(2)]
  have "same_scene w w'" "selectedWindmill w' = selectedWindmill w" by simp_all
  with assms(1) have "scene_inv w'" by (rule same_scene_inv)
  then show ?thesis ..
next
  case cloud
  with assms(1) have "scene_inv w' \<and> exited w' = exited w" using assms(2) by (rule inv_key_c)
  then show ?thesis by simp
next
  case windmill
  with assms(1) have "scene_inv w' \<and> exited w' = exited w" using assms(2) by (rule inv_key_w)
  then show ?thesis by simp
next
  case reset
  with assms(1) have "scene_inv w' \<and> exited w' = exited w" using assms(2) by (rule inv_key_r)
  then show ?thesis by simp
next
  case other
  from keyboard_other_same [OF other assms(2)]
  have "same_scene w w'" "selectedWindmill w' = selectedWindmill w" by simp_all
  with assms(1) have "scene_inv w'" by (rule same_scene_inv)
  then show ?thesis ..
qed

lemma display_inv:
  assumes "scene_inv w" "display w = Some w'"
  shows "scene_inv w'"
proof -
  define g where "g = gl w'"
  have e: "w' = w\<lparr>gl := g\<rparr>"
    unfolding g_def using assms(2) by (rule display_frame)
  show ?thesis using assms(1) e by (rule frame_inv)
qed

lemma step_inv:
  assumes "scene_inv w" "step e w = Some w'"
  shows "exited w' \<or> scene_inv w'"
proof (cases e)
  case (Key k)
  with assms(2) have "keyboard k w = Some w'" by simp
  with assms(1) show ?thesis by (rule keyboard_inv)
next
  case Timer
  with assms(2) have "timer w = Some w'" by simp
  with assms(1) have "scene_inv w' \<and> exited w' = exited w" by (rule timer_inv)
  then show ?thesis by simp
next
  case Display
  with assms(2) have "display w = Some w'" by simp
  with assms(1) have "scene_inv w'" by (rule display_inv)
  then show ?thesis ..
qed

lemma run_inv:
  "exited w \<or> scene_inv w \<Longrightarrow> run evs w = Some w' \<Longrightarrow> exited w' \<or> scene_inv w'"
proof (induction evs arbitrary: w)
  case Nil
  then show ?case by simp
next
  case (Cons e evs)
  show ?case
  proof (cases "exited w")
    case True
    with Cons.prems show ?thesis by simp
  next
    case False
    with Cons.prems obtain w1 where s: "step e w = Some w1" and r: "run evs w1 = Some w'"
      by (auto split: option.splits)
    from False Cons.prems(1) have "scene_inv w" by simp
    then have "exited w1 \<or> scene_inv w1" using s by (rule step_inv)
    then show ?thesis using r by (rule Cons.IH)
  qed
qed


text \<open>Under the invariant no callback meets a null or dangling pointer.\<close>

lemma scene_inv_owns:
  assumes "scene_inv w" "scene w = Some sc"
  shows "owns sc w"
  using assms by (auto simp add: scene_inv_def owns_def)

lemma scene_inv_selected:
  assumes "scene_inv w" "scene w = Some sc" "0 < selectedWindmill w"
    "selectedWindmill w \<le> int (length (windmills sc))"
  shows "\<exists>m. heap w (windmills sc ! nat (selectedWindmill w - 1)) = Some (AWindmill m)"
proof -
  let ?a = "windmills sc ! nat (selectedWindmill w - 1)"
  from assms(1,2) have ws: "windmills sc = filter (windmill_at w) (objects sc)"
    by (auto simp add: scene_inv_def)
  have "nat (selectedWindmill w - 1) < length (windmills sc)"
    using assms(3,4) by linarith
  then have "?a \<in> set (windmills sc)" by (rule nth_mem)
  then have "?a \<in> set (filter (windmill_at w) (objects sc))" using ws by simp
  then have "windmill_at w ?a" by simp
  then obtain obj where obj: "heap w ?a = Some obj" "object_ident obj \<noteq> None"
    by (auto simp add: windmill_at_def ident_at_def split: option.splits)
  then show ?thesis by (cases obj) simp_all
qed

lemma drawHUD_total:
  assumes "scene_inv w"
  shows "drawHUD w \<noteq> None"
proof -
  from assms obtain sc where sc: "scene w = Some sc" by (auto simp add: scene_inv_def)
  have sel: "\<exists>m. heap w (windmills sc ! nat (selectedWindmill w - 1)) = Some (AWindmill m)"
    if "0 < selectedWindmill w" "selectedWindmill w \<le> int (length (windmills sc))"
    using scene_inv_selected [OF assms sc that] .
  show ?thesis
    using sc sel
    by (auto simp add: drawHUD_def emit_def Let_def split: option.splits object.splits)
qed

lemma display_total:
  assumes "scene_inv w"
  shows "display w \<noteq> None"
proof -
  from assms obtain sc where sc: "scene w = Some sc" by (auto simp add: scene_inv_def)
  have own: "owns sc w" using assms sc by (rule scene_inv_owns)
  define g1 where "g1 = gl (drawBackground w)"
  have w1: "drawBackground w = w\<lparr>gl := g1\<rparr>"
    unfolding g1_def by (rule drawBackground_frame)
  have "\<forall>x\<in>set (objects sc). heap (w\<lparr>gl := g1\<rparr>) x \<noteq> None"
    using own by (simp add: owns_def)
  then have "draw_each (objects sc) (w\<lparr>gl := g1\<rparr>) \<noteq> None" by (rule draw_each_total)
  then obtain w2 where w2: "draw_each (objects sc) (w\<lparr>gl := g1\<rparr>) = Some w2" by blast
  define g2 where "g2 = gl w2"
  have "w2 = w\<lparr>gl := g1\<rparr>\<lparr>gl := g2\<rparr>"
    unfolding g2_def using w2 by (rule draw_each_frame)
  then have e2: "w2 = w\<lparr>gl := g2\<rparr>" by simp
  with assms have "scene_inv w2" by (rule frame_inv)
  then have "drawHUD w2 \<noteq> None" by (rule drawHUD_total)
  then obtain w3 where "drawHUD w2 = Some w3" by blast
  then show ?thesis
    using sc w1 w2 by (simp add: display_def drawAll_def Let_def)
qed

lemma drawAll_total:
  assumes "owns sc w"
  shows "drawAll sc w \<noteq> None"
  unfolding drawAll_def using assms by (intro draw_each_total) (simp add: owns_def)

lemma update_each_total:
  "\<forall>x\<in>set as. heap w x \<noteq> None \<Longrightarrow> update_each as w \<noteq> None"
proof (induction as arbitrary: w)
  case Nil
  then show ?case by simp
next
  case (Cons a as)
  then obtain obj where obj: "heap w a = Some obj" by auto
  define obj' where "obj' = fst (Drawable_update obj w)"
  define w1 where "w1 = snd (Drawable_update obj w)"
  have d: "Drawable_update obj w = (obj', w1)" by (simp add: obj'_def w1_def)
  define rs where "rs = rand_seq w1"
  have e: "w1 = w\<lparr>rand_seq := rs\<rparr>"
    unfolding rs_def w1_def using Drawable_update_frame [of obj w] by simp
  have h: "heap w1 = heap w" unfolding e by simp
  have "\<forall>x\<in>set as. heap (w1\<lparr>heap := (heap w1)(a \<mapsto> obj')\<rparr>) x \<noteq> None"
    using Cons.prems by (simp add: h)
  then have "update_each as (w1\<lparr>heap := (heap w1)(a \<mapsto> obj')\<rparr>) \<noteq> None"
    by (rule Cons.IH)
  then show ?case using obj d by simp
qed

lemma timer_total:
  assumes "scene_inv w"
  shows "timer w \<noteq> None"
proof -
  from assms obtain sc where sc: "scene w = Some sc" by (auto simp add: scene_inv_def)
  have "owns sc w" using assms sc by (rule scene_inv_owns)
  then have "\<forall>x\<in>set (objects sc). heap w x \<noteq> None" by (simp add: owns_def)
  then have "update_each (objects sc) w \<noteq> None" by (rule update_each_total)
  then show ?thesis using sc by (auto simp add: timer_def updateAll_def)
qed

lemma delete_each_total:
  assumes "owns sc w" "heap w0 = heap w"
  shows "delete_each (objects sc) w0 \<noteq> None"
proof -
  from assms have "distinct (objects sc)" "\<forall>x\<in>set (objects sc). heap w0 x \<noteq> None"
    by (simp_all add: owns_def)
  then show ?thesis using delete_each_result [of "objects sc" w0] by simp
qed

lemma keyboard_total:
  assumes "scene_inv w"
  shows "keyboard key w \<noteq> None"
proof -
  from assms obtain sc where sc: "scene w = Some sc" by (auto simp add: scene_inv_def)
  have own: "owns sc w" using assms sc by (rule scene_inv_owns)
  show ?thesis
  proof (cases key rule: key_cases)
    case quit
    have "delete_each (objects sc) (w\<lparr>cout := cout w @ [Str ''Exiting...'', Endl]\<rparr>) \<noteq> None"
      using own by (rule delete_each_total) simp
    then show ?thesis
      using quit sc
      by (simp, elim disjE) (auto simp add: keyboard_def delete_Scene_def Let_def)
  next
    case digit
    then show ?thesis
      using sc by (simp, elim disjE) (simp_all add: keyboard_def Let_def)
  next
    case speed
    have sel: "\<exists>m. heap w (windmills sc ! nat (selectedWindmill w - 1)) = Some (AWindmill m)"
      if "0 < selectedWindmill w" "selectedWindmill w \<le> int (length (windmills sc))"
      using scene_inv_selected [OF assms sc that] .
    from speed show ?thesis
      using sc sel
      by (simp, elim disjE)
        (auto simp add: keyboard_def Let_def split: option.splits object.splits)
  next
    case flags
    then show ?thesis
      by (simp, elim disjE) (simp_all add: keyboard_def Let_def)
  next
    case cloud
    then show ?thesis
      using sc
      by (simp, elim disjE)
        (simp_all add: keyboard_def randomFloat_def new_object_def Let_def)
  next
    case windmill
    then show ?thesis
      using sc
      by (simp, elim disjE)
        (simp_all add: keyboard_def randomFloat_def new_Windmill_def new_object_def Let_def)
  next
    case reset
    have "delete_each (objects sc)
            (w\<lparr>cout := cout w @ [Str ''Resetting simulation...'', Endl]\<rparr>) \<noteq> None"
      using own by (rule delete_each_total) simp
    then show ?thesis
      using reset sc
      by (simp, elim disjE) (auto simp add: keyboard_def clear_def Let_def)
  next
    case other
    then show ?thesis using keyboard_other [of key w] by simp
  qed
qed

lemma step_total:
  assumes "scene_inv w"
  shows "step e w \<noteq> None"
proof (cases e)
  case (Key k)
  then show ?thesis using keyboard_total [OF assms] by simp
next
  case Timer
  then show ?thesis using timer_total [OF assms] by simp
next
  case Display
  then show ?thesis using display_total [OF assms] by simp
qed

lemma run_total:
  "exited w \<or> scene_inv w \<Longrightarrow> run evs w \<noteq> None"
proof (induction evs arbitrary: w)
  case Nil
  then show ?case by simp
next
  case (Cons e evs)
  show ?case
  proof (cases "exited w")
    case True
    then show ?thesis by simp
  next
    case False
    with Cons.prems have inv: "scene_inv w" by simp
    then obtain w1 where s: "step e w = Some w1" using step_total [of w e] by blast
    from inv s have "exited w1 \<or> scene_inv w1" by (rule step_inv)
    then have "run evs w1 \<noteq> None" by (rule Cons.IH)
    with False s show ?thesis by simp
  qed
qed


subsection \<open>Windmill ids and the selection\<close>

lemmas key_simps = keyboard_def clear_def delete_object_def delete_Windmill_def
  randomFloat_def timer_def updateAll_def Cloud_update_def CelestialBody_update_def
  Windmill_update_def increaseSpeed_def decreaseSpeed_def

text \<open>
  Claim C1, as stated, fails. \<open>initScene()\<close> constructs three windmills with the ids
  1, 2, 3. The key \<open>r\<close> clears the scene, which destroys them and brings
  \<open>windmillCount\<close> back to 0; the windmill that the key \<open>w\<close> constructs next gets the
  id 1, the id of the first windmill.
\<close>

theorem identity_reused_after_clear:
  "scene_idents world0 = [Some 1, Some 2, Some 3]
   \<and> map_option scene_idents (run [Key CHR ''r'', Key CHR ''w''] world0) = Some [Some 1]"
  by (simp add: world0_simps key_simps scene_idents_def ident_at_def)

text \<open>
  Claim C1, amended. A construction takes the incremented live-instance counter as the
  windmill's id (\<open>windmillCount + 1\<close>). From \<open>initScene()\<close>, every sequence of key
  events, timer ticks and redraws runs without undefined behaviour, and in the state it
  reaches (unless the program has exited) the windmills of the scene carry the ids
  1, 2, ..., n in the order of their construction, so the ids of the live windmills are
  pairwise different and increasing; \<open>windmillCount\<close> is n; and every live windmill is
  one of the scene's.
\<close>

theorem live_windmill_ids_unique:
  "\<exists>w. run evs (initScene (start_world rmax rs)) = Some w
     \<and> (exited w
        \<or> (scene_idents w = map (\<lambda>k. Some (int k)) [1..<Suc (length (scene_idents w))]
           \<and> distinct (scene_idents w)
           \<and> windmillCount w = int (length (scene_idents w))
           \<and> (\<forall>a. windmill_at w a \<longrightarrow> ident_at w a \<in> set (scene_idents w))
           \<and> ident (fst (new_Windmill px py tw th bl n w)) = windmillCount w + 1))"
proof -
  have start: "exited (initScene (start_world rmax rs))
               \<or> scene_inv (initScene (start_world rmax rs))"
    using scene_inv_start by blast
  then have "run evs (initScene (start_world rmax rs)) \<noteq> None" by (rule run_total)
  then obtain w where r: "run evs (initScene (start_world rmax rs)) = Some w" by blast
  from start r have inv: "exited w \<or> scene_inv w" by (rule run_inv)
  have "scene_idents w = map (\<lambda>k. Some (int k)) [1..<Suc (length (scene_idents w))]
           \<and> distinct (scene_idents w)
           \<and> windmillCount w = int (length (scene_idents w))
           \<and> (\<forall>a. windmill_at w a \<longrightarrow> ident_at w a \<in> set (scene_idents w))
           \<and> ident (fst (new_Windmill px py tw th bl n w)) = windmillCount w + 1"
    if "\<not> exited w"
  proof -
    from that inv have "scene_inv w" by simp
    then obtain sc where sc: "scene w = Some sc"
      and dom: "dom (heap w) = set (objects sc)"
      and ws: "windmills sc = filter (windmill_at w) (objects sc)"
      and idl: "map (ident_at w) (windmills sc)
              = map (\<lambda>k. Some (int k)) [1..<Suc (length (windmills sc))]"
      and c: "windmillCount w = int (length (windmills sc))"
      by (auto simp add: scene_inv_def)
    have si: "scene_idents w = map (ident_at w) (windmills sc)"
      using sc by (simp add: scene_idents_def)
    have len: "length (scene_idents w) = length (windmills sc)"
      by (simp add: si)
    have 1: "scene_idents w = map (\<lambda>k. Some (int k)) [1..<Suc (length (scene_idents w))]"
      unfolding len unfolding si by (rule idl)
    have "inj_on (\<lambda>k. Some (int k)) (set [1..<Suc (length (scene_idents w))])"
      by (rule inj_onI) simp
    then have "distinct (map (\<lambda>k. Some (int k)) [1..<Suc (length (scene_idents w))])"
      by (simp add: distinct_map)
    with 1 have 2: "distinct (scene_idents w)" by simp
    have 3: "windmillCount w = int (length (scene_idents w))"
      by (simp add: len c)
    have 4: "ident_at w a \<in> set (scene_idents w)" if "windmill_at w a" for a
    proof -
      from that have "heap w a \<noteq> None"
        by (auto simp add: windmill_at_def ident_at_def split: option.splits)
      then have "a \<in> set (objects sc)" using dom by auto
      with that have "a \<in> set (windmills sc)" by (simp add: ws)
      then show ?thesis by (simp add: si)
    qed
    have 5: "ident (fst (new_Windmill px py tw th bl n w)) = windmillCount w + 1"
      by (simp add: new_Windmill_def Let_def)
    from 1 2 3 4 5 show ?thesis by blast
  qed
  with r show ?thesis by blast
qed

lemma run0: "map_option exited
     (run [Key CHR ''w'', Key CHR ''2'', Key CHR ''+'', Timer, Key CHR ''r'', Key CHR ''w'',
           Key CHR ''w''] world0) = Some False
   \<and> map_option scene_idents
     (run [Key CHR ''w'', Key CHR ''2'', Key CHR ''+'', Timer, Key CHR ''r'', Key CHR ''w'',
           Key CHR ''w''] world0) = Some [Some 1, Some 2]"
  by (simp add: world0_simps key_simps scene_idents_def ident_at_def)

theorem live_windmill_ids_unique_witness:
  "map_option exited
     (run [Key CHR ''w'', Key CHR ''2'', Key CHR ''+'', Timer, Key CHR ''r'', Key CHR ''w'',
           Key CHR ''w''] (initScene (start_world 32767 (sconst 16384)))) = Some False
   \<and> map_option scene_idents
     (run [Key CHR ''w'', Key CHR ''2'', Key CHR ''+'', Timer, Key CHR ''r'', Key CHR ''w'',
           Key CHR ''w''] (initScene (start_world 32767 (sconst 16384)))) = Some [Some 1, Some 2]
   \<and> map_option (distinct \<circ> scene_idents)
     (run [Key CHR ''w'', Key CHR ''2'', Key CHR ''+'', Timer, Key CHR ''r'', Key CHR ''w'',
           Key CHR ''w''] (initScene (start_world 32767 (sconst 16384)))) = Some True
   \<and> map_option windmillCount
     (run [Key CHR ''w'', Key CHR ''2'', Key CHR ''+'', Timer, Key CHR ''r'', Key CHR ''w'',
           Key CHR ''w''] (initScene (start_world 32767 (sconst 16384)))) = Some 2"
proof -
  let ?evs = "[Key CHR ''w'', Key CHR ''2'', Key CHR ''+'', Timer, Key CHR ''r'', Key CHR ''w'',
           Key CHR ''w'']"
  let ?w0 = "initScene (start_world 32767 (sconst 16384))"
  from run0 have e: "map_option exited (run ?evs ?w0) = Some False"
    and i: "map_option scene_idents (run ?evs ?w0) = Some [Some 1, Some 2]"
    by (simp_all add: world0_def)
  from live_windmill_ids_unique [of ?evs 32767 "sconst 16384" 0 0 30 120 80 4]
  obtain w where r: "run ?evs ?w0 = Some w"
    and t: "exited w
        \<or> (scene_idents w = map (\<lambda>k. Some (int k)) [1..<Suc (length (scene_idents w))]
           \<and> distinct (scene_idents w)
           \<and> windmillCount w = int (length (scene_idents w)))"
    by blast
  from r e have ne: "\<not> exited w" by simp
  from r i have ids: "scene_idents w = [Some 1, Some 2]" by simp
  from t ne have "distinct (scene_idents w)" "windmillCount w = int (length (scene_idents w))"
    by simp_all
  with r ne ids show ?thesis by simp
qed

text \<open>
  Claim C2 at the reset key. After \<open>initScene()\<close> and the key \<open>r\<close> the scene has no
  windmill, and the selected index is 1: it is not 0, and there is no windmill it could
  be the index of. The comment in the \<open>r\<close> case announces a re-initialisation that no
  code performs.
\<close>

theorem reset_leaves_stale_selection:
  "map_option selectedWindmill (run [Key CHR ''r''] world0) = Some 1
   \<and> map_option scene_idents (run [Key CHR ''r''] world0) = Some []
   \<and> map_option (map_option windmills \<circ> scene) (run [Key CHR ''r''] world0) = Some (Some [])"
  by (simp add: world0_simps key_simps scene_idents_def ident_at_def)

subsection \<open>Clearing and drawing the scene\<close>

text \<open>
  Claim C8. For a scene that owns its objects, \<open>clear()\<close> returns normally, deletes
  every owned object (and no other), and leaves the Scene equal to a freshly
  constructed one: the master sequence and both typed views are empty and the
  celestial-body pointer is null. \<open>drawAll()\<close> and \<open>updateAll()\<close> on the cleared scene
  return normally and, having no entity to visit, change nothing.
\<close>

theorem clear_leaves_fresh_scene:
  assumes "owns sc w"
  shows "\<exists>w'. clear sc w = Some (new_Scene, w')
           \<and> (\<forall>a\<in>set (objects sc). heap w' a = None)
           \<and> (\<forall>a. a \<notin> set (objects sc) \<longrightarrow> heap w' a = heap w a)
           \<and> drawAll new_Scene w' = Some w'
           \<and> updateAll new_Scene w' = Some w'"
proof -
  from assms have "distinct (objects sc)" "\<forall>x\<in>set (objects sc). heap w x \<noteq> None"
    by (simp_all add: owns_def)
  then have "delete_each (objects sc) w =
     Some (w\<lparr>windmillCount := windmillCount w - int (length (filter (windmill_at w) (objects sc))),
             heap := (\<lambda>x. if x \<in> set (objects sc) then None else heap w x)\<rparr>)"
    by (rule delete_each_result)
  then show ?thesis
    by (simp add: clear_def new_Scene_def drawAll_def updateAll_def)
qed

theorem clear_leaves_fresh_scene_witness:
  "owns scene0 world0
   \<and> scene world0 = Some scene0
   \<and> map_option fst (clear scene0 world0) = Some new_Scene
   \<and> map_option (\<lambda>r. map (heap (snd r)) (objects scene0)) (clear scene0 world0)
      = Some [None, None, None, None, None, None, None]
   \<and> map_option (\<lambda>r. drawAll (fst r) (snd r) = Some (snd r)) (clear scene0 world0) = Some True
   \<and> map_option (\<lambda>r. updateAll (fst r) (snd r) = Some (snd r)) (clear scene0 world0)
      = Some True"
proof -
  have o: "owns scene0 world0" by (simp add: owns_def scene0_def world0_simps)
  have s: "scene world0 = Some scene0" by (simp add: scene0_def world0_simps)
  have l: "objects scene0 = [0, 1, 2, 3, 4, 5, 6]" by (simp add: scene0_def)
  from clear_leaves_fresh_scene [OF o] obtain w' where
    "clear scene0 world0 = Some (new_Scene, w')"
    "\<forall>a\<in>set (objects scene0). heap w' a = None"
    "drawAll new_Scene w' = Some w'" "updateAll new_Scene w' = Some w'"
    by blast
  with o s show ?thesis by (simp add: l)
qed

text \<open>
  Claim C9. \<open>draw()\<close> of any entity, in any process state, returns the entity with all
  fields unchanged and changes the process state in the draw surface only.
  \<open>Scene::drawAll()\<close> and \<open>display()\<close> leave the whole program state (mode flags,
  selection, counter, heap, scene, console, random generator) as it was, except for the
  commands added to the draw surface; so extra redraws between ticks do not change the
  simulation state. \<open>drawAll()\<close> returns for every scene that owns its objects, and
  \<open>display()\<close> returns in every state that satisfies the invariant of the running
  program.
\<close>

theorem draw_changes_only_draw_surface:
  "fst (Drawable_draw obj p) = obj
   \<and> snd (Drawable_draw obj p) = p\<lparr>gl := gl (snd (Drawable_draw obj p))\<rparr>
   \<and> (drawAll sc w = Some w' \<longrightarrow> w' = w\<lparr>gl := gl w'\<rparr>)
   \<and> (display w = Some w'' \<longrightarrow> w'' = w\<lparr>gl := gl w''\<rparr>)
   \<and> (owns sc w \<longrightarrow> drawAll sc w \<noteq> None)
   \<and> (scene_inv w \<longrightarrow> display w \<noteq> None)"
proof -
  define g where "g = gl (snd (Drawable_draw obj p))"
  have "Drawable_draw obj p = (obj, p\<lparr>gl := g\<rparr>)"
    unfolding g_def by (rule Drawable_draw_frame)
  then have "fst (Drawable_draw obj p) = obj"
    and "snd (Drawable_draw obj p) = p\<lparr>gl := gl (snd (Drawable_draw obj p))\<rparr>"
    by simp_all
  moreover have "drawAll sc w = Some w' \<longrightarrow> w' = w\<lparr>gl := gl w'\<rparr>"
    unfolding drawAll_def using draw_each_frame by blast
  moreover have "display w = Some w'' \<longrightarrow> w'' = w\<lparr>gl := gl w''\<rparr>"
    using display_frame by blast
  moreover have "owns sc w \<longrightarrow> drawAll sc w \<noteq> None"
    using drawAll_total by blast
  moreover have "scene_inv w \<longrightarrow> display w \<noteq> None"
    using display_total by blast
  ultimately show ?thesis by simp
qed

lemmas draw_simps = display_def drawBackground_def drawHUD_def drawAll_def emit_def
  Cloud_draw_def CelestialBody_draw_def Windmill_draw_def drawTower_def drawBlades_def
  drawHub_def drawSelectionIndicator_def drawCircle_def

lemma display_world0: "display world0 \<noteq> None"
  by (simp add: world0_simps draw_simps)

lemma drawAll_world0: "drawAll scene0 world0 \<noteq> None"
  by (simp add: world0_simps scene0_def draw_simps)

theorem draw_changes_only_draw_surface_witness:
  "owns scene0 world0
   \<and> drawAll scene0 world0 \<noteq> None
   \<and> the (drawAll scene0 world0) = world0\<lparr>gl := gl (the (drawAll scene0 world0))\<rparr>
   \<and> scene_inv world0
   \<and> display world0 \<noteq> None
   \<and> the (display world0) = world0\<lparr>gl := gl (the (display world0))\<rparr>"
proof -
  have o: "owns scene0 world0" by (simp add: owns_def scene0_def world0_simps)
  have i: "scene_inv world0" unfolding world0_def by (rule scene_inv_start)
  from drawAll_world0 obtain w' where a: "drawAll scene0 world0 = Some w'" by blast
  from display_world0 obtain w'' where d: "display world0 = Some w''" by blast
  note t = draw_changes_only_draw_surface
    [of "ACloud (new_Cloud 490 200 5 25)" proc0 scene0 world0 w' w'']
  from t a have 1: "w' = world0\<lparr>gl := gl w'\<rparr>" by blast
  from t d have 2: "w'' = world0\<lparr>gl := gl w''\<rparr>" by blast
  show ?thesis
    by (intro conjI)
      (simp_all only: a d o i option.sel option.distinct not_False_eq_True, rule 1, rule 2)
qed

end
